theory Spec2Isabelle
  imports Main "HOL-Library.Word"
begin

section \<open>Requests to the external services\<close>

text \<open>
  Both scripts talk to the outside world only through blocking requests: speech output,
  intent recognition (Dialogflow), text completion (GPT) and the speaker. The model records
  every request in a trace, in the order in which it is issued. Console prints are not
  requests and are not recorded.

  Strings are byte strings (\<open>char list\<close>); the line terminator written by the log writer
  is the byte 10.
\<close>

type_synonym bytes = "8 word list"

datatype event =
    Espeak string string
      \<comment> \<open>\<open>call(["espeak", "-s140", "-v<lang>", "-z", text])\<close>: text, lang\<close>
  | Tts_request string "string option" bool
      \<comment> \<open>\<open>NaoqiTextToSpeechRequest(text, language=..., animated=...)\<close>\<close>
  | Intent_request nat "(string \<times> nat) list"
      \<comment> \<open>\<open>GetIntentRequest(request_id, contexts)\<close>; no contexts is \<open>[]\<close>\<close>
  | Gpt_request string
      \<comment> \<open>\<open>GPTRequest(prompt)\<close>\<close>
  | Audio_request bytes nat
      \<comment> \<open>\<open>AudioRequest(frames, framerate)\<close>\<close>

fun is_intent_request :: "event \<Rightarrow> bool" where
  "is_intent_request (Intent_request _ _) = True"
| "is_intent_request _ = False"

definition recognitions :: "event list \<Rightarrow> nat" where
  "recognitions tr = length (filter is_intent_request tr)"

text \<open>
  A recognition reply, as far as the scripts read it: \<open>reply.intent\<close> (a name or
  \<open>None\<close>), \<open>reply.response.query_result.query_text\<close> and
  \<open>reply.response.query_result.parameters\<close> (entity name to value; values are kept as
  strings).
\<close>

record reply =
  intent :: "string option"
  query_text :: string
  parameters :: "(string \<times> string) list"

text \<open>
  The recogniser is external: \<open>dialogflow k\<close> is its reply to the request that is issued
  when \<open>k\<close> recognition requests have been issued before.
\<close>

type_synonym recogniser = "nat \<Rightarrow> reply"

text \<open>Python's \<open>needle in haystack\<close> on strings.\<close>

fun starts_with :: "string \<Rightarrow> string \<Rightarrow> bool" where
  "starts_with [] hay = True"
| "starts_with (c # cs) [] = False"
| "starts_with (c # cs) (d # ds) = (c = d \<and> starts_with cs ds)"

fun str_in :: "string \<Rightarrow> string \<Rightarrow> bool" where
  "str_in needle [] = (needle = [])"
| "str_in needle (d # ds) = (starts_with needle (d # ds) \<or> str_in needle ds)"

text \<open>
  Truth value of \<open>reply.intent\<close>: \<open>None\<close> and the empty name are false. Where the
  source goes on to read the name, \<open>intent_name\<close> is that name.
\<close>

fun truthy :: "string option \<Rightarrow> bool" where
  "truthy None = False"
| "truthy (Some s) = (s \<noteq> [])"

fun intent_name :: "string option \<Rightarrow> string" where
  "intent_name None = []"
| "intent_name (Some s) = s"

text \<open>Python's \<open>str(n)\<close> for an integer: decimal digits, with a minus sign when negative.\<close>

definition digit_char :: "nat \<Rightarrow> char" where
  "digit_char d = ''0123456789'' ! d"

function str_nat :: "nat \<Rightarrow> string" where
  "str_nat n = (if n < 10 then [digit_char n] else str_nat (n div 10) @ [digit_char (n mod 10)])"
  by pat_completeness auto
termination
  by (relation "measure (\<lambda>n. n)") auto

definition str_int :: "int \<Rightarrow> string" where
  "str_int i = (if i < 0 then CHR ''-'' # str_nat (nat (- i)) else str_nat (nat i))"

text \<open>
  \<open>strftime("%Y-%m-%d %H:%M:%S")\<close>, called without a time, formats what
  \<open>localtime()\<close> returns: a \<open>struct_time\<close> of the current local time, whose fields are in
  their calendar ranges (seconds up to 61, for leap seconds) and whose year has four digits.
  The year is written in decimal, every other field with two digits.
\<close>

record struct_time =
  tm_year :: nat
  tm_mon :: nat
  tm_mday :: nat
  tm_hour :: nat
  tm_min :: nat
  tm_sec :: nat

definition valid_time :: "struct_time \<Rightarrow> bool" where
  "valid_time t =
     (1000 \<le> tm_year t \<and> tm_year t \<le> 9999 \<and> 1 \<le> tm_mon t \<and> tm_mon t \<le> 12
      \<and> 1 \<le> tm_mday t \<and> tm_mday t \<le> 31 \<and> tm_hour t \<le> 23 \<and> tm_min t \<le> 59
      \<and> tm_sec t \<le> 61)"

typedef local_time = "{t :: struct_time. valid_time t}"
  by (rule exI [of _ "\<lparr>tm_year = 2025, tm_mon = 1, tm_mday = 1, tm_hour = 0, tm_min = 0,
                          tm_sec = 0\<rparr>"])
     (simp add: valid_time_def)

definition two_digits :: "nat \<Rightarrow> string" where
  "two_digits n = (if n < 10 then CHR ''0'' # str_nat n else str_nat n)"

definition strftime :: "local_time \<Rightarrow> string" where
  "strftime t =
     (let tm = Rep_local_time t
      in str_nat (tm_year tm) @ ''-'' @ two_digits (tm_mon tm) @ ''-'' @ two_digits (tm_mday tm)
         @ '' '' @ two_digits (tm_hour tm) @ '':'' @ two_digits (tm_min tm)
         @ '':'' @ two_digits (tm_sec tm))"

text \<open>Exceptions are values; a function that can raise returns \<open>Inl\<close> of the exception.\<close>

datatype error = TypeError string | ValueError string | KeyboardInterrupt

text \<open>The service clients of both classes are addressed with a random \<open>request_id\<close>.\<close>

record client =
  request_id :: nat

section \<open>memo\_demo.py: ConversationDemo\<close>

datatype device_kind = Desktop | Pepper | Nao | Other_device

record demo = client +
  device :: device_kind
  lang :: string

text \<open>
  \<open>say\<close>: the second test of the \<open>elif\<close> is \<open>isinstance(device, Nao)\<close> on the imported
  module \<open>device\<close>, which is never a \<open>Nao\<close>; so only a Pepper reaches the text-to-speech
  request, and every other device that is not a Desktop only prints an error.
\<close>

definition say :: "demo \<Rightarrow> string \<Rightarrow> bool \<Rightarrow> event list \<Rightarrow> event list" where
  "say self text animated tr =
     (if device self = Desktop then tr @ [Espeak text (lang self)]
      else if device self = Pepper \<or> False then tr @ [Tts_request text None animated]
      else tr)"

function ask_yesno_loop ::
  "demo \<Rightarrow> recogniser \<Rightarrow> string \<Rightarrow> int \<Rightarrow> int \<Rightarrow> event list \<Rightarrow> string option \<times> event list" where
  "ask_yesno_loop self dialogflow question max_attempts attempts tr =
     (if attempts < max_attempts then
        (let tr1 = say self question True tr;
             reply = dialogflow (recognitions tr1);
             tr2 = tr1 @ [Intent_request (request_id self) [(''answer_yesno'', 1)]]
         in if truthy (intent reply) then
              (if str_in ''yesno_yes'' (intent_name (intent reply)) then (Some ''yes'', tr2)
               else if str_in ''yesno_no'' (intent_name (intent reply)) then (Some ''no'', tr2)
               else if str_in ''yesno_dontknow'' (intent_name (intent reply))
                 then (Some ''dontknow'', tr2)
               else ask_yesno_loop self dialogflow question max_attempts (attempts + 1) tr2)
            else ask_yesno_loop self dialogflow question max_attempts (attempts + 1) tr2)
      else (None, tr))"
  by pat_completeness auto
termination
  by (relation "measure (\<lambda>(self, dialogflow, question, max_attempts, attempts, tr).
        nat (max_attempts - attempts))") auto

definition ask_yesno ::
  "demo \<Rightarrow> recogniser \<Rightarrow> string \<Rightarrow> int \<Rightarrow> event list \<Rightarrow> string option \<times> event list" where
  "ask_yesno self dialogflow question max_attempts tr =
     ask_yesno_loop self dialogflow question max_attempts 0 tr"

function ask_entity_loop ::
  "demo \<Rightarrow> recogniser \<Rightarrow> string \<Rightarrow> string \<Rightarrow> string \<Rightarrow> string \<Rightarrow> int \<Rightarrow> int \<Rightarrow> event list
     \<Rightarrow> string option \<times> event list" where
  "ask_entity_loop self dialogflow question context target_intent target_entity max_attempts attempts tr =
     (if attempts < max_attempts then
        (let tr1 = say self question True tr;
             reply = dialogflow (recognitions tr1);
             tr2 = tr1 @ [Intent_request (request_id self) [(context, 1)]]
         in if truthy (intent reply) then
              (if str_in target_intent (intent_name (intent reply)) then
                 (if parameters reply \<noteq> [] \<and> map_of (parameters reply) target_entity \<noteq> None
                  then (map_of (parameters reply) target_entity, tr2)
                  else ask_entity_loop self dialogflow question context target_intent target_entity
                         max_attempts (attempts + 1) tr2)
               else ask_entity_loop self dialogflow question context target_intent target_entity
                      max_attempts (attempts + 1) tr2)
            else ask_entity_loop self dialogflow question context target_intent target_entity
                   max_attempts (attempts + 1) tr2)
      else (None, tr))"
  by pat_completeness auto
termination
  by (relation "measure (\<lambda>(self, dialogflow, question, context, target_intent, target_entity,
        max_attempts, attempts, tr). nat (max_attempts - attempts))") auto

definition ask_entity ::
  "demo \<Rightarrow> recogniser \<Rightarrow> string \<Rightarrow> string \<Rightarrow> string \<Rightarrow> string \<Rightarrow> int \<Rightarrow> event list
     \<Rightarrow> string option \<times> event list" where
  "ask_entity self dialogflow question context target_intent target_entity max_attempts tr =
     ask_entity_loop self dialogflow question context target_intent target_entity max_attempts 0 tr"

function ask_open_loop ::
  "demo \<Rightarrow> recogniser \<Rightarrow> string \<Rightarrow> int \<Rightarrow> int \<Rightarrow> event list \<Rightarrow> string option \<times> event list" where
  "ask_open_loop self dialogflow question max_attempts attempts tr =
     (if attempts < max_attempts then
        (let tr1 = say self question True tr;
             reply = dialogflow (recognitions tr1);
             tr2 = tr1 @ [Intent_request (request_id self) []]
         in if query_text reply \<noteq> [] then (Some (query_text reply), tr2)
            else ask_open_loop self dialogflow question max_attempts (attempts + 1) tr2)
      else (None, tr))"
  by pat_completeness auto
termination
  by (relation "measure (\<lambda>(self, dialogflow, question, max_attempts, attempts, tr).
        nat (max_attempts - attempts))") auto

definition ask_open ::
  "demo \<Rightarrow> recogniser \<Rightarrow> string \<Rightarrow> int \<Rightarrow> event list \<Rightarrow> string option \<times> event list" where
  "ask_open self dialogflow question max_attempts tr =
     ask_open_loop self dialogflow question max_attempts 0 tr"

text \<open>
  \<open>play_audio\<close>: \<open>clip\<close> is the audio file as \<open>wave.open\<close> presents it. \<open>readframes n\<close> returns the
  first \<open>n\<close> frames of the data, a frame being \<open>nchannels * sampwidth\<close> bytes.
\<close>

record wav =
  nchannels :: nat
  sampwidth :: nat
  framerate :: nat
  nframes :: nat
  frames :: bytes

definition readframes :: "wav \<Rightarrow> nat \<Rightarrow> bytes" where
  "readframes clip n = take (n * (nchannels clip * sampwidth clip)) (frames clip)"

definition play_audio :: "demo \<Rightarrow> wav \<Rightarrow> event list \<Rightarrow> (error + unit) \<times> event list" where
  "play_audio self clip tr =
     (let sample_width = sampwidth clip;
          n_frames = nframes clip
      in if sample_width \<noteq> 2
         then (Inl (ValueError (''WAV file is not 16-bit audio. Sample width = ''
                                  @ str_nat sample_width @ '' bytes.'')), tr)
         else (Inr (), tr @ [Audio_request (readframes clip n_frames) (framerate clip)]))"

section \<open>memo\_llm.py: MemoLLM\<close>

text \<open>Python's \<open>str.lower\<close> on the ASCII letters; every other byte is left as it is.\<close>

definition lower_char :: "char \<Rightarrow> char" where
  "lower_char c =
     (case map_of (zip ''ABCDEFGHIJKLMNOPQRSTUVWXYZ'' ''abcdefghijklmnopqrstuvwxyz'') c of
        None \<Rightarrow> c
      | Some l \<Rightarrow> l)"

definition lower :: "string \<Rightarrow> string" where
  "lower text = map lower_char text"

text \<open>An f-string renders \<open>None\<close> as the text \<open>None\<close>.\<close>

fun py_str :: "string option \<Rightarrow> string" where
  "py_str None = ''None''"
| "py_str (Some text) = text"

definition newline :: char where
  "newline = CHR 0x0A"

text \<open>
  The logging thread runs \<open>log_writer\<close>. Its progress is one of four stages: started but
  not yet inside the \<open>with open(log_path, 'a')\<close> block; inside the block and at
  \<open>self.log_queue.get()\<close>; holding an item just taken from the queue, before
  \<open>f.write\<close>; and finished, which means the \<open>with\<close> block was left (the file is
  closed) and the thread has terminated.
\<close>

datatype worker =
    Starting string
  | Waiting string
  | Holding string string
  | Finished

text \<open>
  The state of a \<open>MemoLLM\<close> object and of the world it changes. \<open>log_queue\<close> is
  \<open>None\<close> until \<open>start_logging\<close> creates a queue; a queue holds strings and the exit
  signal \<open>None\<close>. \<open>files\<close> maps a path to the content of the file there, \<open>dirs\<close> are the
  directories created, \<open>clock_reads\<close> counts the readings of the clock made by
  \<open>strftime\<close>, \<open>trace\<close> is the list of requests issued so far.
\<close>

record memo_llm = client +
  log_queue :: "string option list option"
  log_thread :: "worker option"
  files :: "string \<Rightarrow> string option"
  dirs :: "string set"
  clock_reads :: nat
  trace :: "event list"

text \<open>
  What the object cannot control: the reply of the recogniser to its \<open>k\<close>-th request, the
  response of the language model to its \<open>k\<close>-th request, the local time at the \<open>k\<close>-th
  reading of the clock, and how many steps a freshly started logging thread takes before
  \<open>start_logging\<close> goes on.
\<close>

record world =
  recognise :: recogniser
  complete :: "nat \<Rightarrow> string"
  localtime :: "nat \<Rightarrow> local_time"
  head_start :: nat

text \<open>The object after \<open>__init__\<close>, on a file system \<open>fs\<close>.\<close>

definition init :: "nat \<Rightarrow> (string \<Rightarrow> string option) \<Rightarrow> memo_llm" where
  "init rid fs = \<lparr>request_id = rid, log_queue = None, log_thread = None, files = fs,
                  dirs = {}, clock_reads = 0, trace = []\<rparr>"

definition content :: "memo_llm \<Rightarrow> string \<Rightarrow> string" where
  "content s path = (case files s path of None \<Rightarrow> [] | Some text \<Rightarrow> text)"

definition queue_put :: "string option \<Rightarrow> memo_llm \<Rightarrow> memo_llm" where
  "queue_put item s = s\<lparr>log_queue := map_option (\<lambda>q. q @ [item]) (log_queue s)\<rparr>"

text \<open>
  One step of the logging thread. Opening in mode \<open>'a'\<close> creates the file when it is
  absent and keeps its content otherwise. \<open>get\<close> on an empty queue blocks: the step changes
  nothing. \<open>f.write(item + '\n')\<close> with the \<open>f.flush()\<close> after it appends to the file.
\<close>

definition log_writer_step :: "memo_llm \<Rightarrow> memo_llm" where
  "log_writer_step s =
     (case log_thread s of
        None \<Rightarrow> s
      | Some (Starting log_path) \<Rightarrow>
          s\<lparr>files := (files s)(log_path \<mapsto> content s log_path),
            log_thread := Some (Waiting log_path)\<rparr>
      | Some (Waiting log_path) \<Rightarrow>
          (case log_queue s of
             None \<Rightarrow> s
           | Some q \<Rightarrow>
               (case q of
                  [] \<Rightarrow> s
                | item # rest \<Rightarrow>
                    (case item of
                       None \<Rightarrow> s\<lparr>log_queue := Some rest, log_thread := Some Finished\<rparr>
                     | Some text \<Rightarrow>
                         s\<lparr>log_queue := Some rest, log_thread := Some (Holding log_path text)\<rparr>)))
      | Some (Holding log_path text) \<Rightarrow>
          s\<lparr>files := (files s)(log_path \<mapsto> content s log_path @ text @ [newline]),
            log_thread := Some (Waiting log_path)\<rparr>
      | Some Finished \<Rightarrow> s)"

text \<open>
  \<open>start_logging\<close>: \<open>w\<close> is the number of steps the new thread takes between
  \<open>self.log_thread.start()\<close> and the \<open>put\<close> of the start marker. The session id is a plain
  file name, so \<open>Path("logs") / f"{log_id}.log"\<close> is \<open>logs/<log_id>.log\<close>.
\<close>

definition start_logging ::
  "(nat \<Rightarrow> local_time) \<Rightarrow> nat \<Rightarrow> string \<Rightarrow> memo_llm \<Rightarrow> memo_llm" where
  "start_logging clock w log_id s =
     (let folder = ''logs'';
          log_path = folder @ ''/'' @ log_id @ ''.log'';
          s1 = s\<lparr>dirs := insert folder (dirs s), log_queue := Some [],
                  log_thread := Some (Starting log_path)\<rparr>;
          s2 = (log_writer_step ^^ w) s1;
          timestamp = strftime (clock (clock_reads s2));
          s3 = s2\<lparr>clock_reads := Suc (clock_reads s2)\<rparr>
      in queue_put (Some (''['' @ timestamp @ ''] ### START NEW LOG ###'')) s3)"

text \<open>A \<open>queue.Queue\<close> object and a \<open>Thread\<close> object are always true; only \<open>None\<close> is false.\<close>

definition log_utterance ::
  "(nat \<Rightarrow> local_time) \<Rightarrow> string \<Rightarrow> string \<Rightarrow> memo_llm \<Rightarrow> memo_llm" where
  "log_utterance clock speaker text s =
     (if log_queue s \<noteq> None then
        (let timestamp = strftime (clock (clock_reads s));
             s1 = s\<lparr>clock_reads := Suc (clock_reads s)\<rparr>
         in queue_put (Some (''['' @ timestamp @ ''] '' @ speaker @ '': '' @ text)) s1)
      else s)"

text \<open>
  \<open>Thread.join\<close> blocks the caller until the thread has terminated, so only the logging
  thread moves. When that thread waits at an empty queue nothing can ever arrive, and the
  call never returns: that is the value \<open>None\<close>.
\<close>

definition blocked :: "memo_llm \<Rightarrow> bool" where
  "blocked s =
     (case log_thread s of
        Some (Waiting log_path) \<Rightarrow> log_queue s = None \<or> log_queue s = Some []
      | _ \<Rightarrow> False)"

definition work_left :: "memo_llm \<Rightarrow> nat" where
  "work_left s =
     2 * (case log_queue s of None \<Rightarrow> 0 | Some q \<Rightarrow> length q)
     + (case log_thread s of
          None \<Rightarrow> 0
        | Some (Starting log_path) \<Rightarrow> 2
        | Some (Waiting log_path) \<Rightarrow> 1
        | Some (Holding log_path text) \<Rightarrow> 2
        | Some Finished \<Rightarrow> 0)"

function thread_join :: "memo_llm \<Rightarrow> memo_llm option" where
  "thread_join s =
     (if log_thread s = None \<or> log_thread s = Some Finished then Some s
      else if blocked s then None
      else thread_join (log_writer_step s))"
  by pat_completeness auto
termination
  by (relation "measure work_left")
     (auto simp: work_left_def blocked_def log_writer_step_def
           split: option.splits worker.splits list.splits)

definition stop_logging :: "memo_llm \<Rightarrow> memo_llm option" where
  "stop_logging s =
     (let s1 = (if log_queue s \<noteq> None then queue_put None s else s)
      in if log_thread s1 \<noteq> None then thread_join s1 else Some s1)"

text \<open>
  A logging session as the two threads run it: the driver thread calls \<open>log_utterance\<close>,
  the logging thread takes steps, in any order. A schedule is one such order.
\<close>

datatype action = Worker | Log string string

fun step :: "(nat \<Rightarrow> local_time) \<Rightarrow> action \<Rightarrow> memo_llm \<Rightarrow> memo_llm" where
  "step clock Worker s = log_writer_step s"
| "step clock (Log speaker text) s = log_utterance clock speaker text s"

definition exec :: "(nat \<Rightarrow> local_time) \<Rightarrow> action list \<Rightarrow> memo_llm \<Rightarrow> memo_llm" where
  "exec clock schedule s = fold (step clock) schedule s"

text \<open>
  \<open>say\<close> of \<open>MemoLLM\<close>: the text is prefixed with the speed tag of the robot's
  speech engine: a space, a backslash (byte 92), \<open>rspd=<speed>\<close>, a backslash and a space.
\<close>

definition memo_say :: "string \<Rightarrow> int \<Rightarrow> memo_llm \<Rightarrow> memo_llm" where
  "memo_say text speed s =
     s\<lparr>trace := trace s @
          [Tts_request ('' '' @ [CHR 0x5C] @ ''rspd='' @ str_int speed
                         @ [CHR 0x5C] @ '' '' @ text)
             (Some ''Dutch'') True]\<rparr>"

function listen_loop ::
  "world \<Rightarrow> string \<Rightarrow> int \<Rightarrow> int \<Rightarrow> int \<Rightarrow> memo_llm \<Rightarrow> string option \<times> memo_llm" where
  "listen_loop w question speed max_attempts attempts s =
     (if attempts < max_attempts then
        (let s1 = memo_say question speed s;
             reply = recognise w (recognitions (trace s1));
             s2 = s1\<lparr>trace := trace s1 @ [Intent_request (request_id s1) []]\<rparr>
         in if query_text reply \<noteq> [] then (Some (query_text reply), s2)
            else listen_loop w question speed max_attempts (attempts + 1) s2)
      else (None, s))"
  by pat_completeness auto
termination
  by (relation "measure (\<lambda>(w, question, speed, max_attempts, attempts, s).
        nat (max_attempts - attempts))") auto

definition listen :: "world \<Rightarrow> string \<Rightarrow> int \<Rightarrow> int \<Rightarrow> memo_llm \<Rightarrow> string option \<times> memo_llm" where
  "listen w question speed max_attempts s = listen_loop w question speed max_attempts 0 s"

fun is_gpt_request :: "event \<Rightarrow> bool" where
  "is_gpt_request (Gpt_request _) = True"
| "is_gpt_request _ = False"

text \<open>
  \<open>llm_action\<close>: \<open>base_prompt\<close> is the fixed role description of lines 103 to 129, a
  constant of the source that no property here depends on.
\<close>

definition llm_action :: "world \<Rightarrow> string \<Rightarrow> string \<Rightarrow> memo_llm \<Rightarrow> string \<times> memo_llm" where
  "llm_action w base_prompt dialog_history s =
     (let complete_prompt =
            (if dialog_history \<noteq> []
             then base_prompt @ ''Dit is het gesprek tot nu toe: '' @ dialog_history
             else base_prompt);
          gpt_response = complete w (length (filter is_gpt_request (trace s)))
      in (gpt_response, s\<lparr>trace := trace s @ [Gpt_request complete_prompt]\<rparr>))"

text \<open>
  The \<open>while\<close> loop of \<open>run\<close> (lines 144 to 152) need not end: the result is \<open>None\<close>
  when it runs forever. The logging thread takes its steps whenever it is scheduled; the
  driver never looks at its progress before \<open>stop_logging\<close>, so the loop is written
  for the schedule in which the thread runs only inside \<open>join\<close>.
\<close>

partial_function (option) run_loop ::
  "world \<Rightarrow> string \<Rightarrow> int \<Rightarrow> string \<Rightarrow> string \<Rightarrow> memo_llm \<Rightarrow> memo_llm option" where
  "run_loop w base_prompt speed dialog_history llm_response s =
     (if lower llm_response \<noteq> ''stop'' then
        (case llm_action w base_prompt dialog_history s of
           (llm_response1, s1) \<Rightarrow>
             if lower llm_response1 \<noteq> ''stop'' then
               (let dialog_history1 = dialog_history @ ''Memo: '' @ llm_response1 @ [newline];
                    s2 = log_utterance (localtime w) ''Memo'' llm_response1 s1
                in case listen w llm_response1 speed 2 s2 of
                     (user_response, s3) \<Rightarrow>
                       run_loop w base_prompt speed
                         (dialog_history1 @ ''Persoon: '' @ py_str user_response)
                         llm_response1
                         (log_utterance (localtime w) ''Persoon'' (py_str user_response) s3))
             else run_loop w base_prompt speed dialog_history llm_response1 s1)
      else Some s)"

definition closing :: string where
  "closing = ''Oke dat was het weer, bedankt voor dit fijne gesprek. Tot ziens!''"

text \<open>
  The loop from any of its iterations on, with what follows it inside the \<open>try\<close> block:
  lines 144 to 154.
\<close>

definition run_from_loop ::
  "world \<Rightarrow> string \<Rightarrow> int \<Rightarrow> string \<Rightarrow> string \<Rightarrow> memo_llm \<Rightarrow> memo_llm option" where
  "run_from_loop w base_prompt speed dialog_history llm_response s =
     (case run_loop w base_prompt speed dialog_history llm_response s of
        None \<Rightarrow> None
      | Some s2 \<Rightarrow> stop_logging (memo_say closing speed s2))"

text \<open>
  Calling \<open>start_logging\<close> binds the positional arguments to its one parameter
  \<open>log_id\<close>; any other number of arguments raises \<open>TypeError\<close> before the body runs.
\<close>

definition call_start_logging :: "world \<Rightarrow> string list \<Rightarrow> memo_llm \<Rightarrow> error + memo_llm" where
  "call_start_logging w args s =
     (case args of
        [] \<Rightarrow> Inl (TypeError (''MemoLLM.start_logging() missing 1 required positional argument: ''
                               @ [CHR 0x27] @ ''log_id'' @ [CHR 0x27]))
      | [log_id] \<Rightarrow> Inr (start_logging (localtime w) (head_start w) log_id s)
      | _ \<Rightarrow> Inl (TypeError (''MemoLLM.start_logging() takes 2 positional arguments but ''
                              @ str_nat (Suc (length args)) @ '' were given'')))"

text \<open>
  \<open>run\<close>: what a call does is either to raise an exception in some state or to return.
  The \<open>except\<close> clause handles \<open>KeyboardInterrupt\<close> only; every other exception leaves
  \<open>run\<close>. The call is \<open>self.start_logging()\<close>, with no argument. An interrupt that
  arrives from outside while \<open>run\<close> executes is not part of the model.
\<close>

datatype outcome = Raised error memo_llm | Returned memo_llm

definition run :: "world \<Rightarrow> string \<Rightarrow> int \<Rightarrow> memo_llm \<Rightarrow> outcome option" where
  "run w base_prompt speed s =
     (case call_start_logging w [] s of
        Inl e \<Rightarrow>
          (if e = KeyboardInterrupt
           then map_option Returned (stop_logging (memo_say closing speed s))
           else Some (Raised e s))
      | Inr s1 \<Rightarrow> map_option Returned (run_from_loop w base_prompt speed [] [] s1))"

section \<open>Vocabulary of the properties\<close>

text \<open>
  The records of a session, as \<open>start_logging\<close> and \<open>log_utterance\<close> format them:
  the start marker, then one record for each \<open>Log\<close> of the schedule, stamped with the
  clock readings in the order of the calls; \<open>k\<close> is the number of clock readings made
  before the session.
\<close>

definition start_marker :: "string \<Rightarrow> string" where
  "start_marker timestamp = ''['' @ timestamp @ ''] ### START NEW LOG ###''"

definition utterance :: "string \<Rightarrow> string \<Rightarrow> string \<Rightarrow> string" where
  "utterance timestamp speaker text = ''['' @ timestamp @ ''] '' @ speaker @ '': '' @ text"

fun utterances :: "(nat \<Rightarrow> local_time) \<Rightarrow> nat \<Rightarrow> action list \<Rightarrow> string list" where
  "utterances clock k [] = []"
| "utterances clock k (Worker # schedule) = utterances clock k schedule"
| "utterances clock k (Log speaker text # schedule) =
     utterance (strftime (clock k)) speaker text # utterances clock (Suc k) schedule"

definition records :: "(nat \<Rightarrow> local_time) \<Rightarrow> nat \<Rightarrow> action list \<Rightarrow> string list" where
  "records clock k schedule =
     start_marker (strftime (clock k)) # utterances clock (Suc k) schedule"

text \<open>What \<open>f.write(item + '\n')\<close> appends for a list of items.\<close>

definition to_lines :: "string list \<Rightarrow> string" where
  "to_lines items = concat (map (\<lambda>item. item @ [newline]) items)"

text \<open>The lines of a text: the pieces ended by a newline, and what follows the last one.\<close>

fun lines_from :: "string \<Rightarrow> string \<Rightarrow> string list" where
  "lines_from cur [] = (if cur = [] then [] else [cur])"
| "lines_from cur (c # cs) =
     (if c = newline then cur # lines_from [] cs else lines_from (cur @ [c]) cs)"

definition text_lines :: "string \<Rightarrow> string list" where
  "text_lines text = lines_from [] text"



text \<open>
  A line of the form \<open>[<timestamp>] <speaker>: <text>\<close> begins with a bracket and
  contains the two separators.
\<close>

definition record_shaped :: "string \<Rightarrow> bool" where
  "record_shaped ln = (starts_with ''['' ln \<and> str_in ''] '' ln \<and> str_in '': '' ln)"

text \<open>
  What the logging thread has taken from the driver but not yet written: the item it
  holds and the strings in the queue.
\<close>

fun held :: "worker option \<Rightarrow> string list" where
  "held (Some (Holding log_path text)) = [text]"
| "held _ = []"

fun queued :: "string option list option \<Rightarrow> string list" where
  "queued None = []"
| "queued (Some q) = List.map_filter (\<lambda>item. item) q"

definition outstanding :: "memo_llm \<Rightarrow> string list" where
  "outstanding s = held (log_thread s) @ queued (log_queue s)"

text \<open>
  The state \<open>logging\<close> of the log writer: the thread is alive, the queue exists and no exit
  signal has been put. \<open>writer_path\<close> is the file the living thread writes.
\<close>

fun writer_path :: "worker option \<Rightarrow> string option" where
  "writer_path (Some (Starting log_path)) = Some log_path"
| "writer_path (Some (Waiting log_path)) = Some log_path"
| "writer_path (Some (Holding log_path text)) = Some log_path"
| "writer_path _ = None"

fun no_exit_signal :: "string option list option \<Rightarrow> bool" where
  "no_exit_signal None = False"
| "no_exit_signal (Some q) = (None \<notin> set q)"

definition logging :: "memo_llm \<Rightarrow> bool" where
  "logging s = (writer_path (log_thread s) \<noteq> None \<and> no_exit_signal (log_queue s))"

text \<open>
  The state \<open>idle\<close>: no logging thread is alive, as after \<open>__init__\<close> and after a
  \<open>stop_logging\<close> that has returned. A session is \<open>start_logging\<close> in an idle state,
  then a schedule.
\<close>

definition idle :: "memo_llm \<Rightarrow> bool" where
  "idle s = (writer_path (log_thread s) = None)"

definition session ::
  "(nat \<Rightarrow> local_time) \<Rightarrow> nat \<Rightarrow> string \<Rightarrow> memo_llm \<Rightarrow> action list \<Rightarrow> memo_llm" where
  "session clock w log_id s0 schedule = exec clock schedule (start_logging clock w log_id s0)"

definition log_file :: "string \<Rightarrow> string" where
  "log_file log_id = ''logs/'' @ log_id @ ''.log''"

text \<open>The content of a file after a call that may not return (then there is none).\<close>

fun logged :: "memo_llm option \<Rightarrow> string \<Rightarrow> string" where
  "logged None path = []"
| "logged (Some s) path = content s path"

text \<open>The requests of one attempt of each ask primitive.\<close>

definition attempt :: "demo \<Rightarrow> string \<Rightarrow> (string \<times> nat) list \<Rightarrow> event list" where
  "attempt self question contexts =
     say self question True [] @ [Intent_request (request_id self) contexts]"

definition listen_attempt :: "memo_llm \<Rightarrow> string \<Rightarrow> int \<Rightarrow> event list" where
  "listen_attempt s question speed =
     trace (memo_say question speed (s\<lparr>trace := []\<rparr>)) @ [Intent_request (request_id s) []]"

text \<open>
  The replies on which an attempt returns: the tests of \<open>ask_yesno\<close>, of
  \<open>ask_entity\<close>, and of \<open>ask_open\<close> and \<open>listen\<close>.
\<close>

definition yesno_hit :: "reply \<Rightarrow> bool" where
  "yesno_hit r =
     (truthy (intent r) \<and>
      (str_in ''yesno_yes'' (intent_name (intent r))
       \<or> str_in ''yesno_no'' (intent_name (intent r))
       \<or> str_in ''yesno_dontknow'' (intent_name (intent r))))"

definition entity_hit :: "string \<Rightarrow> string \<Rightarrow> reply \<Rightarrow> bool" where
  "entity_hit target_intent target_entity r =
     (truthy (intent r) \<and> str_in target_intent (intent_name (intent r))
      \<and> parameters r \<noteq> [] \<and> map_of (parameters r) target_entity \<noteq> None)"

definition text_hit :: "reply \<Rightarrow> bool" where
  "text_hit r = (query_text r \<noteq> [])"

definition missing_log_id :: string where
  "missing_log_id = ''MemoLLM.start_logging() missing 1 required positional argument: ''
                      @ [CHR 0x27] @ ''log_id'' @ [CHR 0x27]"

subsection \<open>Concrete inputs\<close>

definition noon :: "nat \<Rightarrow> local_time" where
  "noon k = Abs_local_time \<lparr>tm_year = 2025, tm_mon = 1, tm_mday = 1, tm_hour = 12, tm_min = 0,
                             tm_sec = k mod 60\<rparr>"

definition no_files :: "string \<Rightarrow> string option" where
  "no_files path = None"


definition silence :: recogniser where
  "silence k = \<lparr>intent = None, query_text = [], parameters = []\<rparr>"

definition says_no :: recogniser where
  "says_no k = \<lparr>intent = Some ''yesno_no'', query_text = ''nee'', parameters = []\<rparr>"

definition says_dontknow :: recogniser where
  "says_dontknow k = \<lparr>intent = Some ''answer_yesno_dontknow'', query_text = ''weet ik niet'',
                      parameters = []\<rparr>"

definition says_cat :: recogniser where
  "says_cat k = \<lparr>intent = Some ''animals'', query_text = ''een kat'',
                 parameters = [(''animals'', ''kat'')]\<rparr>"

definition says_both :: recogniser where
  "says_both k = \<lparr>intent = Some ''yesno_no_yesno_yes'', query_text = ''ja nee'', parameters = []\<rparr>"

definition says_other :: recogniser where
  "says_other k = \<lparr>intent = Some ''animals'', query_text = ''een kat'', parameters = []\<rparr>"

definition desktop_demo :: demo where
  "desktop_demo = \<lparr>request_id = 7, device = Desktop, lang = ''nl''\<rparr>"

definition clip8 :: wav where
  "clip8 = \<lparr>nchannels = 1, sampwidth = 1, framerate = 8000, nframes = 2, frames = [1, 2, 3]\<rparr>"

definition clip16 :: wav where
  "clip16 = \<lparr>nchannels = 1, sampwidth = 2, framerate = 16000, nframes = 1, frames = [1, 2, 3]\<rparr>"

definition answers_stop :: "nat \<Rightarrow> string" where
  "answers_stop k = ''Stop''"

definition stop_world :: world where
  "stop_world = \<lparr>recognise = silence, complete = answers_stop, localtime = noon, head_start = 0\<rparr>"

definition cat_world :: world where
  "cat_world = \<lparr>recognise = says_cat, complete = answers_stop, localtime = noon, head_start = 0\<rparr>"

definition poem :: string where
  "poem = ''roos'' @ [newline] @ ''doos''"

section \<open>Properties\<close>

subsection \<open>Helper facts\<close>

text \<open>Decimal digits, and the shape of what \<open>strftime\<close> returns.\<close>

declare str_nat.simps [simp del]


lemma str_nat_1: "n < 10 \<Longrightarrow> str_nat n = [digit_char n]"
  by (simp add: str_nat.simps)

lemma str_nat_2: "10 \<le> n \<Longrightarrow> n < 100 \<Longrightarrow> str_nat n = [digit_char (n div 10), digit_char (n mod 10)]"
  by (subst str_nat.simps) (simp add: str_nat_1)

lemma str_nat_4:
  assumes "1000 \<le> n" and "n \<le> 9999"
  shows "str_nat n = [digit_char (n div 1000), digit_char (n div 100 mod 10),
                      digit_char (n div 10 mod 10), digit_char (n mod 10)]"
proof -
  from assms have big: "\<not> n < 10" "\<not> n div 10 < 10" "10 \<le> n div 100" "n div 100 < 100"
    by arith+
  have h: "n div 10 div 10 = n div 100" "n div 100 div 10 = n div 1000"
    by (simp_all add: div_mult2_eq [symmetric])
  have a: "str_nat n = str_nat (n div 10) @ [digit_char (n mod 10)]"
    using big by (simp add: str_nat.simps [of n])
  have b: "str_nat (n div 10) = str_nat (n div 100) @ [digit_char (n div 10 mod 10)]"
    using big by (simp add: str_nat.simps [of "n div 10"] h)
  have c: "str_nat (n div 100) = [digit_char (n div 1000), digit_char (n div 100 mod 10)]"
    using str_nat_2 [OF big(3) big(4)] by (simp add: h)
  show ?thesis by (simp add: a b c)
qed



declare ask_yesno_loop.simps [simp del] ask_entity_loop.simps [simp del]
  ask_open_loop.simps [simp del] listen_loop.simps [simp del]

lemma recognitions_append: "recognitions (a @ b) = recognitions a + recognitions b"
  by (simp add: recognitions_def)

lemma recognitions_say: "recognitions (say self text animated tr) = recognitions tr"
  by (simp add: say_def recognitions_def)

lemma recognitions_attempt: "recognitions (attempt self question contexts) = 1"
  by (simp add: attempt_def say_def recognitions_def)

lemma recognitions_listen_attempt: "recognitions (listen_attempt s question speed) = 1"
  by (simp add: listen_attempt_def memo_say_def recognitions_def)

lemma recognitions_repeat:
  "recognitions xs = 1 \<Longrightarrow> recognitions (concat (replicate n xs)) = n"
  by (induction n) (simp_all add: recognitions_append, simp add: recognitions_def)

lemma attempt_step:
  "say self question True tr @ [Intent_request (request_id self) contexts]
     = tr @ attempt self question contexts"
  by (simp add: attempt_def say_def)

text \<open>The loop of \<open>ask_yesno\<close>, one attempt at a time.\<close>

lemma ask_yesno_loop_done:
  "\<not> attempts < max_attempts \<Longrightarrow>
     ask_yesno_loop self dialogflow question max_attempts attempts tr = (None, tr)"
  by (simp add: ask_yesno_loop.simps)

lemma ask_yesno_loop_attempt:
  "attempts < max_attempts \<Longrightarrow>
     ask_yesno_loop self dialogflow question max_attempts attempts tr =
       (let reply = dialogflow (recognitions tr);
            tr2 = tr @ attempt self question [(''answer_yesno'', 1)]
        in if truthy (intent reply) then
             (if str_in ''yesno_yes'' (intent_name (intent reply)) then (Some ''yes'', tr2)
              else if str_in ''yesno_no'' (intent_name (intent reply)) then (Some ''no'', tr2)
              else if str_in ''yesno_dontknow'' (intent_name (intent reply))
                then (Some ''dontknow'', tr2)
              else ask_yesno_loop self dialogflow question max_attempts (attempts + 1) tr2)
           else ask_yesno_loop self dialogflow question max_attempts (attempts + 1) tr2)"
  by (subst ask_yesno_loop.simps) (simp add: Let_def recognitions_say attempt_step)

lemma ask_yesno_loop_miss:
  assumes miss: "\<forall>k. \<not> yesno_hit (dialogflow k)"
  shows "nat (max_attempts - attempts) = n \<Longrightarrow>
    ask_yesno_loop self dialogflow question max_attempts attempts tr =
      (None, tr @ concat (replicate n (attempt self question [(''answer_yesno'', 1)])))"
proof (induction n arbitrary: attempts tr)
  case 0
  then have "\<not> attempts < max_attempts" by simp
  then show ?case by (simp add: ask_yesno_loop_done)
next
  case (Suc n)
  then have lt: "attempts < max_attempts" and left: "nat (max_attempts - (attempts + 1)) = n"
    by simp_all
  from miss have m: "\<not> yesno_hit (dialogflow (recognitions tr))" by blast
  have "ask_yesno_loop self dialogflow question max_attempts attempts tr =
          ask_yesno_loop self dialogflow question max_attempts (attempts + 1)
            (tr @ attempt self question [(''answer_yesno'', 1)])"
    using m by (simp add: ask_yesno_loop_attempt [OF lt] Let_def yesno_hit_def)
  also have "\<dots> = (None, (tr @ attempt self question [(''answer_yesno'', 1)])
                        @ concat (replicate n (attempt self question [(''answer_yesno'', 1)])))"
    by (rule Suc.IH [OF left])
  finally show ?case by simp
qed

lemma ask_yesno_loop_grows:
  "nat (max_attempts - attempts) = n \<Longrightarrow>
     recognitions tr + (if attempts < max_attempts then 1 else 0)
       \<le> recognitions (snd (ask_yesno_loop self dialogflow question max_attempts attempts tr))"
proof (induction n arbitrary: attempts tr)
  case 0
  then have "\<not> attempts < max_attempts" by simp
  then show ?case by (simp add: ask_yesno_loop_done)
next
  case (Suc n)
  then have lt: "attempts < max_attempts" and left: "nat (max_attempts - (attempts + 1)) = n"
    by simp_all
  have "recognitions (tr @ attempt self question [(''answer_yesno'', 1)])
          \<le> recognitions (snd (ask_yesno_loop self dialogflow question max_attempts (attempts + 1)
                (tr @ attempt self question [(''answer_yesno'', 1)])))"
    using Suc.IH [OF left, of "tr @ attempt self question [(''answer_yesno'', 1)]"]
    by (simp split: if_splits)
  then show ?case
    using lt by (simp add: ask_yesno_loop_attempt [OF lt] Let_def recognitions_append recognitions_attempt)
qed

text \<open>The loop of \<open>ask_entity\<close>.\<close>

lemma ask_entity_loop_done:
  "\<not> attempts < max_attempts \<Longrightarrow>
     ask_entity_loop self dialogflow question context target_intent target_entity
       max_attempts attempts tr = (None, tr)"
  by (simp add: ask_entity_loop.simps)

lemma ask_entity_loop_attempt:
  "attempts < max_attempts \<Longrightarrow>
     ask_entity_loop self dialogflow question context target_intent target_entity
       max_attempts attempts tr =
       (let reply = dialogflow (recognitions tr);
            tr2 = tr @ attempt self question [(context, 1)]
        in if entity_hit target_intent target_entity reply
           then (map_of (parameters reply) target_entity, tr2)
           else ask_entity_loop self dialogflow question context target_intent target_entity
                  max_attempts (attempts + 1) tr2)"
  by (subst ask_entity_loop.simps)
     (simp add: Let_def recognitions_say attempt_step entity_hit_def)

lemma ask_entity_loop_miss:
  assumes miss: "\<forall>k. \<not> entity_hit target_intent target_entity (dialogflow k)"
  shows "nat (max_attempts - attempts) = n \<Longrightarrow>
    ask_entity_loop self dialogflow question context target_intent target_entity
       max_attempts attempts tr =
      (None, tr @ concat (replicate n (attempt self question [(context, 1)])))"
proof (induction n arbitrary: attempts tr)
  case 0
  then have "\<not> attempts < max_attempts" by simp
  then show ?case by (simp add: ask_entity_loop_done)
next
  case (Suc n)
  then have lt: "attempts < max_attempts" and left: "nat (max_attempts - (attempts + 1)) = n"
    by simp_all
  from miss have m: "\<not> entity_hit target_intent target_entity (dialogflow (recognitions tr))"
    by blast
  have "ask_entity_loop self dialogflow question context target_intent target_entity
          max_attempts attempts tr =
        ask_entity_loop self dialogflow question context target_intent target_entity
          max_attempts (attempts + 1) (tr @ attempt self question [(context, 1)])"
    using m by (simp add: ask_entity_loop_attempt [OF lt] Let_def)
  also have "\<dots> = (None, (tr @ attempt self question [(context, 1)])
                        @ concat (replicate n (attempt self question [(context, 1)])))"
    by (rule Suc.IH [OF left])
  finally show ?case by simp
qed

text \<open>The loop of \<open>ask_open\<close>.\<close>

lemma ask_open_loop_done:
  "\<not> attempts < max_attempts \<Longrightarrow>
     ask_open_loop self dialogflow question max_attempts attempts tr = (None, tr)"
  by (simp add: ask_open_loop.simps)

lemma ask_open_loop_attempt:
  "attempts < max_attempts \<Longrightarrow>
     ask_open_loop self dialogflow question max_attempts attempts tr =
       (let reply = dialogflow (recognitions tr);
            tr2 = tr @ attempt self question []
        in if text_hit reply then (Some (query_text reply), tr2)
           else ask_open_loop self dialogflow question max_attempts (attempts + 1) tr2)"
  by (subst ask_open_loop.simps) (simp add: Let_def recognitions_say attempt_step text_hit_def)

lemma ask_open_loop_miss:
  assumes miss: "\<forall>k. \<not> text_hit (dialogflow k)"
  shows "nat (max_attempts - attempts) = n \<Longrightarrow>
    ask_open_loop self dialogflow question max_attempts attempts tr =
      (None, tr @ concat (replicate n (attempt self question [])))"
proof (induction n arbitrary: attempts tr)
  case 0
  then have "\<not> attempts < max_attempts" by simp
  then show ?case by (simp add: ask_open_loop_done)
next
  case (Suc n)
  then have lt: "attempts < max_attempts" and left: "nat (max_attempts - (attempts + 1)) = n"
    by simp_all
  from miss have m: "\<not> text_hit (dialogflow (recognitions tr))" by blast
  have "ask_open_loop self dialogflow question max_attempts attempts tr =
        ask_open_loop self dialogflow question max_attempts (attempts + 1)
          (tr @ attempt self question [])"
    using m by (simp add: ask_open_loop_attempt [OF lt] Let_def)
  also have "\<dots> = (None, (tr @ attempt self question [])
                        @ concat (replicate n (attempt self question [])))"
    by (rule Suc.IH [OF left])
  finally show ?case by simp
qed

text \<open>The loop of \<open>listen\<close>.\<close>

lemma listen_attempt_step:
  "trace (memo_say question speed s) @ [Intent_request (request_id (memo_say question speed s)) []]
     = trace s @ listen_attempt s question speed"
  by (simp add: listen_attempt_def memo_say_def)

lemma listen_attempt_same:
  "listen_attempt (s\<lparr>trace := tr\<rparr>) question speed = listen_attempt s question speed"
  by (simp add: listen_attempt_def memo_say_def)

lemma listen_loop_done:
  "\<not> attempts < max_attempts \<Longrightarrow>
     listen_loop w question speed max_attempts attempts s = (None, s)"
  by (simp add: listen_loop.simps)

lemma listen_loop_attempt:
  "attempts < max_attempts \<Longrightarrow>
     listen_loop w question speed max_attempts attempts s =
       (let reply = recognise w (recognitions (trace s));
            s2 = s\<lparr>trace := trace s @ listen_attempt s question speed\<rparr>
        in if text_hit reply then (Some (query_text reply), s2)
           else listen_loop w question speed max_attempts (attempts + 1) s2)"
  by (subst listen_loop.simps)
     (simp add: Let_def text_hit_def listen_attempt_def memo_say_def recognitions_def)

lemma listen_loop_miss:
  assumes miss: "\<forall>k. \<not> text_hit (recognise w k)"
  shows "nat (max_attempts - attempts) = n \<Longrightarrow>
    listen_loop w question speed max_attempts attempts s =
      (None, s\<lparr>trace := trace s @ concat (replicate n (listen_attempt s question speed))\<rparr>)"
proof (induction n arbitrary: attempts s)
  case 0
  then have "\<not> attempts < max_attempts" by simp
  then show ?case by (simp add: listen_loop_done)
next
  case (Suc n)
  then have lt: "attempts < max_attempts" and left: "nat (max_attempts - (attempts + 1)) = n"
    by simp_all
  from miss have m: "\<not> text_hit (recognise w (recognitions (trace s)))" by blast
  have "listen_loop w question speed max_attempts attempts s =
        listen_loop w question speed max_attempts (attempts + 1)
          (s\<lparr>trace := trace s @ listen_attempt s question speed\<rparr>)"
    using m by (simp add: listen_loop_attempt [OF lt] Let_def)
  also have "\<dots> = (None, s\<lparr>trace := trace s @ listen_attempt s question speed\<rparr>
                        \<lparr>trace := trace (s\<lparr>trace := trace s @ listen_attempt s question speed\<rparr>)
                            @ concat (replicate n (listen_attempt
                                (s\<lparr>trace := trace s @ listen_attempt s question speed\<rparr>) question speed))\<rparr>)"
    by (rule Suc.IH [OF left])
  finally show ?case by (simp add: listen_attempt_same)
qed

lemma silence_misses:
  "\<not> yesno_hit (silence k)" "\<not> entity_hit ti te (silence k)" "\<not> text_hit (silence k)"
  by (simp_all add: silence_def yesno_hit_def entity_hit_def text_hit_def)

lemma recognitions_Nil: "recognitions [] = 0"
  by (simp add: recognitions_def)

subsection \<open>The ask primitives\<close>

text \<open>
  Claim C3. Let the attempt ceiling be \<open>n\<close>. When no reply of the recogniser makes an
  attempt return (for \<open>ask_yesno\<close> and \<open>ask_entity\<close>: no reply carries a matching
  intent with what the primitive reads from it; for \<open>ask_open\<close> and \<open>listen\<close>: no
  reply carries transcript text), each of the four primitives returns \<open>None\<close> without
  raising, and what it has issued is exactly \<open>n\<close> times the requests of one attempt, the
  speech output followed by one new recognition request: \<open>n\<close> recognition requests in
  all. \<open>n\<close> is a Python integer; for a negative ceiling the loop body never runs and the
  count \<open>nat n\<close> is zero.
\<close>

theorem ask_never_matched:
  "((\<forall>k. \<not> yesno_hit (dialogflow k)) \<longrightarrow>
      ask_yesno self dialogflow question n tr =
        (None, tr @ concat (replicate (nat n) (attempt self question [(''answer_yesno'', 1)])))
      \<and> recognitions (snd (ask_yesno self dialogflow question n tr)) = recognitions tr + nat n)
   \<and> ((\<forall>k. \<not> entity_hit target_intent target_entity (dialogflow k)) \<longrightarrow>
      ask_entity self dialogflow question ctx target_intent target_entity n tr =
        (None, tr @ concat (replicate (nat n) (attempt self question [(ctx, 1)])))
      \<and> recognitions (snd (ask_entity self dialogflow question ctx target_intent
                              target_entity n tr)) = recognitions tr + nat n)
   \<and> ((\<forall>k. \<not> text_hit (dialogflow k)) \<longrightarrow>
      ask_open self dialogflow question n tr =
        (None, tr @ concat (replicate (nat n) (attempt self question [])))
      \<and> recognitions (snd (ask_open self dialogflow question n tr)) = recognitions tr + nat n)
   \<and> ((\<forall>k. \<not> text_hit (recognise w k)) \<longrightarrow>
      listen w question speed n s =
        (None, s\<lparr>trace := trace s @ concat (replicate (nat n) (listen_attempt s question speed))\<rparr>)
      \<and> recognitions (trace (snd (listen w question speed n s))) = recognitions (trace s) + nat n)"
proof (intro conjI impI)
  assume miss: "\<forall>k. \<not> yesno_hit (dialogflow k)"
  show r: "ask_yesno self dialogflow question n tr =
        (None, tr @ concat (replicate (nat n) (attempt self question [(''answer_yesno'', 1)])))"
    unfolding ask_yesno_def by (rule ask_yesno_loop_miss [OF miss]) simp
  show "recognitions (snd (ask_yesno self dialogflow question n tr)) = recognitions tr + nat n"
    by (simp add: r recognitions_append recognitions_repeat recognitions_attempt)
next
  assume miss: "\<forall>k. \<not> entity_hit target_intent target_entity (dialogflow k)"
  show r: "ask_entity self dialogflow question ctx target_intent target_entity n tr =
        (None, tr @ concat (replicate (nat n) (attempt self question [(ctx, 1)])))"
    unfolding ask_entity_def by (rule ask_entity_loop_miss [OF miss]) simp
  show "recognitions (snd (ask_entity self dialogflow question ctx target_intent
                              target_entity n tr)) = recognitions tr + nat n"
    by (simp add: r recognitions_append recognitions_repeat recognitions_attempt)
next
  assume miss: "\<forall>k. \<not> text_hit (dialogflow k)"
  show r: "ask_open self dialogflow question n tr =
        (None, tr @ concat (replicate (nat n) (attempt self question [])))"
    unfolding ask_open_def by (rule ask_open_loop_miss [OF miss]) simp
  show "recognitions (snd (ask_open self dialogflow question n tr)) = recognitions tr + nat n"
    by (simp add: r recognitions_append recognitions_repeat recognitions_attempt)
next
  assume miss: "\<forall>k. \<not> text_hit (recognise w k)"
  show r: "listen w question speed n s =
        (None, s\<lparr>trace := trace s @ concat (replicate (nat n) (listen_attempt s question speed))\<rparr>)"
    unfolding listen_def by (rule listen_loop_miss [OF miss]) simp
  show "recognitions (trace (snd (listen w question speed n s))) = recognitions (trace s) + nat n"
    by (simp add: r recognitions_append recognitions_repeat recognitions_listen_attempt)
qed

theorem ask_never_matched_witness:
  "ask_yesno desktop_demo silence ''Hou je van dieren?'' 2 [] =
     (None, [Espeak ''Hou je van dieren?'' ''nl'', Intent_request 7 [(''answer_yesno'', 1)],
             Espeak ''Hou je van dieren?'' ''nl'', Intent_request 7 [(''answer_yesno'', 1)]])
   \<and> recognitions (snd (ask_yesno desktop_demo silence ''Hou je van dieren?'' 2 [])) = 2
   \<and> recognitions (snd (ask_entity desktop_demo silence ''Hou je van dieren?''
                          ''animals'' ''animals'' ''animals'' 2 [])) = 2
   \<and> recognitions (snd (ask_open desktop_demo silence ''Hou je van dieren?'' 2 [])) = 2
   \<and> fst (listen stop_world ''Hou je van dieren?'' 75 2 (init 7 no_files)) = None
   \<and> recognitions (trace (snd (listen stop_world ''Hou je van dieren?'' 75 2 (init 7 no_files)))) = 2"
proof -
  have quiet: "recognise stop_world = silence"
    by (simp add: stop_world_def)
  have started: "trace (init 7 no_files) = []"
    by (simp add: init_def)
  show ?thesis
    using ask_never_matched [where dialogflow = silence and self = desktop_demo
          and question = "''Hou je van dieren?''" and n = 2 and tr = "[]"
          and target_intent = "''animals''" and target_entity = "''animals''"
          and ctx = "''animals''" and w = stop_world and speed = 75
          and s = "init 7 no_files"]
    by (simp add: silence_misses quiet started recognitions_def listen_attempt_def memo_say_def attempt_def say_def
          desktop_demo_def numeral_2_eq_2)
qed

text \<open>
  Claim C4, amended. Let the ceiling \<open>n\<close> be at least 1, so that a first request is made.
  When the reply to that first request makes the attempt return (for \<open>ask_yesno\<close> a
  matching intent; for \<open>ask_entity\<close> a matching intent whose parameters hold the target
  entity; for \<open>ask_open\<close> and \<open>listen\<close> transcript text), the primitive stops there:
  the trace has grown by the requests of one attempt, which hold exactly one recognition
  request, however large the ceiling is; that is fewer than \<open>n\<close> whenever \<open>n\<close> is at
  least 2. \<open>ask_yesno\<close> returns the answer the intent name maps to, \<open>ask_entity\<close> the
  entity value, \<open>ask_open\<close> and \<open>listen\<close> the transcript. In particular, on the intent
  \<open>yesno_no\<close> at the first attempt \<open>ask_yesno\<close> returns \<open>no\<close> after one request.
  A first reply on which the test of \<open>ask_entity\<close> fails, as one that carries the target
  intent but not the target entity, is a miss: the loop goes on with the second attempt.
\<close>

theorem ask_stops_at_first_match:
  assumes "1 \<le> n"
  shows
  "(yesno_hit (dialogflow (recognitions tr)) \<longrightarrow>
      ask_yesno self dialogflow question n tr =
        (Some (if str_in ''yesno_yes'' (intent_name (intent (dialogflow (recognitions tr))))
               then ''yes''
               else if str_in ''yesno_no'' (intent_name (intent (dialogflow (recognitions tr))))
               then ''no'' else ''dontknow''),
         tr @ attempt self question [(''answer_yesno'', 1)]))
   \<and> (intent (dialogflow (recognitions tr)) = Some ''yesno_no'' \<longrightarrow>
      ask_yesno self dialogflow question n tr =
        (Some ''no'', tr @ attempt self question [(''answer_yesno'', 1)]))
   \<and> (entity_hit target_intent target_entity (dialogflow (recognitions tr)) \<longrightarrow>
      ask_entity self dialogflow question ctx target_intent target_entity n tr =
        (map_of (parameters (dialogflow (recognitions tr))) target_entity,
         tr @ attempt self question [(ctx, 1)]))
   \<and> (\<not> entity_hit target_intent target_entity (dialogflow (recognitions tr)) \<longrightarrow>
      ask_entity self dialogflow question ctx target_intent target_entity n tr =
        ask_entity_loop self dialogflow question ctx target_intent target_entity n 1
          (tr @ attempt self question [(ctx, 1)]))
   \<and> (text_hit (dialogflow (recognitions tr)) \<longrightarrow>
      ask_open self dialogflow question n tr =
        (Some (query_text (dialogflow (recognitions tr))), tr @ attempt self question []))
   \<and> (text_hit (recognise w (recognitions (trace s))) \<longrightarrow>
      listen w question speed n s =
        (Some (query_text (recognise w (recognitions (trace s)))),
         s\<lparr>trace := trace s @ listen_attempt s question speed\<rparr>))
   \<and> recognitions (tr @ attempt self question contexts) = recognitions tr + 1
   \<and> recognitions (trace s @ listen_attempt s question speed) = recognitions (trace s) + 1
   \<and> (2 \<le> n \<longrightarrow>
        recognitions (tr @ attempt self question contexts) < recognitions tr + nat n
        \<and> recognitions (trace s @ listen_attempt s question speed)
            < recognitions (trace s) + nat n)"
proof -
  from assms have lt: "0 < n" by simp
  show ?thesis
    by (simp add: ask_yesno_def ask_entity_def ask_open_def listen_def
          ask_yesno_loop_attempt [OF lt] ask_entity_loop_attempt [OF lt]
          ask_open_loop_attempt [OF lt] listen_loop_attempt [OF lt]
          Let_def yesno_hit_def recognitions_append recognitions_attempt
          recognitions_listen_attempt)
qed

theorem ask_stops_at_first_match_witness:
  "ask_yesno desktop_demo says_no ''Hou je van dieren?'' 2 [] =
     (Some ''no'', [Espeak ''Hou je van dieren?'' ''nl'', Intent_request 7 [(''answer_yesno'', 1)]])
   \<and> ask_entity desktop_demo says_cat ''Wat is jouw lievelingsdier?'' ''animals'' ''animals''
        ''animals'' 2 [] =
     (Some ''kat'', [Espeak ''Wat is jouw lievelingsdier?'' ''nl'', Intent_request 7 [(''animals'', 1)]])
   \<and> ask_entity desktop_demo says_other ''Wat is jouw lievelingsdier?'' ''animals'' ''animals''
        ''animals'' 2 [] =
     ask_entity_loop desktop_demo says_other ''Wat is jouw lievelingsdier?'' ''animals'' ''animals''
        ''animals'' 2 1
        [Espeak ''Wat is jouw lievelingsdier?'' ''nl'', Intent_request 7 [(''animals'', 1)]]
   \<and> ask_open desktop_demo says_cat ''Wat is jouw lievelingsdier?'' 2 [] =
     (Some ''een kat'', [Espeak ''Wat is jouw lievelingsdier?'' ''nl'', Intent_request 7 []])
   \<and> fst (listen cat_world ''Wat is jouw lievelingsdier?'' 75 2 (init 7 no_files)) = Some ''een kat''
   \<and> recognitions (trace (snd (listen cat_world ''Wat is jouw lievelingsdier?'' 75 2
                                  (init 7 no_files)))) = 1"
proof -
  have n: "(1::int) \<le> 2" by simp
  have cat: "recognise cat_world = says_cat"
    by (simp add: cat_world_def)
  have started: "trace (init 7 no_files) = []"
    by (simp add: init_def)
  show ?thesis
    using ask_stops_at_first_match [OF n, where dialogflow = says_no and self = desktop_demo
            and question = "''Hou je van dieren?''" and tr = "[]" and w = cat_world
            and s = "init 7 no_files"]
          ask_stops_at_first_match [OF n, where dialogflow = says_cat and self = desktop_demo
            and question = "''Wat is jouw lievelingsdier?''" and tr = "[]"
            and target_intent = "''animals''" and target_entity = "''animals''"
            and ctx = "''animals''" and w = cat_world and speed = 75
            and s = "init 7 no_files"]
          ask_stops_at_first_match [OF n, where dialogflow = says_other and self = desktop_demo
            and question = "''Wat is jouw lievelingsdier?''" and tr = "[]"
            and target_intent = "''animals''" and target_entity = "''animals''"
            and ctx = "''animals''" and w = cat_world and speed = 75
            and s = "init 7 no_files"]
    by (simp add: cat started says_no_def says_cat_def says_other_def yesno_hit_def
          entity_hit_def text_hit_def recognitions_def attempt_def say_def desktop_demo_def)
qed

text \<open>
  The claim as stated fails in two places. A first reply that carries the target intent but
  not the target entity does not stop \<open>ask_entity\<close>: with a ceiling of 2 it issues two
  requests and returns \<open>None\<close>. And with a ceiling of 1 a primitive that succeeds at once
  has issued one request, which is not fewer than the ceiling.
\<close>

theorem first_reply_with_intent_not_enough:
  "truthy (intent (says_other 0))
   \<and> str_in ''animals'' (intent_name (intent (says_other 0)))
   \<and> ask_entity desktop_demo says_other ''Wat is jouw lievelingsdier?'' ''animals'' ''animals''
        ''animals'' 2 [] =
       (None, [Espeak ''Wat is jouw lievelingsdier?'' ''nl'', Intent_request 7 [(''animals'', 1)],
               Espeak ''Wat is jouw lievelingsdier?'' ''nl'', Intent_request 7 [(''animals'', 1)]])
   \<and> recognitions (snd (ask_entity desktop_demo says_other ''Wat is jouw lievelingsdier?''
                          ''animals'' ''animals'' ''animals'' 2 [])) = 2
   \<and> ask_yesno desktop_demo says_no ''Hou je van dieren?'' 1 [] =
       (Some ''no'', [Espeak ''Hou je van dieren?'' ''nl'', Intent_request 7 [(''answer_yesno'', 1)]])
   \<and> \<not> recognitions (snd (ask_yesno desktop_demo says_no ''Hou je van dieren?'' 1 [])) < 1"
proof -
  have miss: "\<forall>k. \<not> entity_hit ''animals'' ''animals'' (says_other k)"
    by (simp add: entity_hit_def says_other_def)
  have a: "ask_entity desktop_demo says_other ''Wat is jouw lievelingsdier?'' ''animals'' ''animals''
        ''animals'' 2 [] =
       (None, [Espeak ''Wat is jouw lievelingsdier?'' ''nl'', Intent_request 7 [(''animals'', 1)],
               Espeak ''Wat is jouw lievelingsdier?'' ''nl'', Intent_request 7 [(''animals'', 1)]])"
    using ask_entity_loop_miss [OF miss, of 2 0 2 desktop_demo "''Wat is jouw lievelingsdier?''"
            "''animals''" "[]"]
    by (simp add: ask_entity_def attempt_def say_def desktop_demo_def numeral_2_eq_2)
  have lt: "(0::int) < 1" by simp
  have b: "ask_yesno desktop_demo says_no ''Hou je van dieren?'' 1 [] =
       (Some ''no'', [Espeak ''Hou je van dieren?'' ''nl'', Intent_request 7 [(''answer_yesno'', 1)]])"
    by (simp add: ask_yesno_def ask_yesno_loop_attempt [OF lt] Let_def says_no_def attempt_def
          say_def desktop_demo_def)
  have c: "truthy (intent (says_other 0))" "str_in ''animals'' (intent_name (intent (says_other 0)))"
    by (simp_all add: says_other_def)
  show ?thesis
    using c by (simp add: a b recognitions_def)
qed

text \<open>
  Claim C10. In an attempt of \<open>ask_yesno\<close> whose reply has the intent name \<open>name\<close>,
  the three substrings are tested in the order \<open>yesno_yes\<close>, \<open>yesno_no\<close>,
  \<open>yesno_dontknow\<close>: a name that contains \<open>yesno_yes\<close> gives \<open>yes\<close> whatever else it
  contains, then \<open>yesno_no\<close> gives \<open>no\<close>, then \<open>yesno_dontknow\<close> gives \<open>dontknow\<close>.
  A name that is not empty and contains none of the three is a miss: the loop goes on with the
  next attempt, and if the ceiling allows one more attempt, a second recognition request is
  issued.
\<close>

theorem ask_yesno_priority:
  assumes "attempts < max_attempts"
    and "intent (dialogflow (recognitions tr)) = Some name"
  shows
  "(str_in ''yesno_yes'' name \<longrightarrow>
      ask_yesno_loop self dialogflow question max_attempts attempts tr =
        (Some ''yes'', tr @ attempt self question [(''answer_yesno'', 1)]))
   \<and> (\<not> str_in ''yesno_yes'' name \<and> str_in ''yesno_no'' name \<longrightarrow>
      ask_yesno_loop self dialogflow question max_attempts attempts tr =
        (Some ''no'', tr @ attempt self question [(''answer_yesno'', 1)]))
   \<and> (\<not> str_in ''yesno_yes'' name \<and> \<not> str_in ''yesno_no'' name
        \<and> str_in ''yesno_dontknow'' name \<longrightarrow>
      ask_yesno_loop self dialogflow question max_attempts attempts tr =
        (Some ''dontknow'', tr @ attempt self question [(''answer_yesno'', 1)]))
   \<and> (name \<noteq> [] \<and> \<not> str_in ''yesno_yes'' name \<and> \<not> str_in ''yesno_no'' name
        \<and> \<not> str_in ''yesno_dontknow'' name \<longrightarrow>
      ask_yesno_loop self dialogflow question max_attempts attempts tr =
        ask_yesno_loop self dialogflow question max_attempts (attempts + 1)
          (tr @ attempt self question [(''answer_yesno'', 1)])
      \<and> (attempts + 1 < max_attempts \<longrightarrow>
           recognitions tr + 2
             \<le> recognitions (snd (ask_yesno_loop self dialogflow question max_attempts attempts tr))))"
proof -
  have nonempty: "str_in (c # cs) name \<Longrightarrow> name \<noteq> []" for c cs
    by (cases name) simp_all
  have retry: "recognitions tr + 2
       \<le> recognitions (snd (ask_yesno_loop self dialogflow question max_attempts (attempts + 1)
            (tr @ attempt self question [(''answer_yesno'', 1)])))"
    if "attempts + 1 < max_attempts"
    using that ask_yesno_loop_grows [of max_attempts "attempts + 1" _
            "tr @ attempt self question [(''answer_yesno'', 1)]" self dialogflow question]
    by (simp add: recognitions_append recognitions_attempt)
  show ?thesis
    using assms(2) nonempty retry
    by (auto simp add: ask_yesno_loop_attempt [OF assms(1)] Let_def)
qed

theorem ask_yesno_priority_witness:
  "ask_yesno_loop desktop_demo says_both ''Hou je van dieren?'' 2 0 [] =
     (Some ''yes'', [Espeak ''Hou je van dieren?'' ''nl'', Intent_request 7 [(''answer_yesno'', 1)]])
   \<and> ask_yesno_loop desktop_demo says_no ''Hou je van dieren?'' 2 0 [] =
     (Some ''no'', [Espeak ''Hou je van dieren?'' ''nl'', Intent_request 7 [(''answer_yesno'', 1)]])
   \<and> ask_yesno_loop desktop_demo says_dontknow ''Hou je van dieren?'' 2 1 [] =
     (Some ''dontknow'', [Espeak ''Hou je van dieren?'' ''nl'', Intent_request 7 [(''answer_yesno'', 1)]])
   \<and> ask_yesno_loop desktop_demo says_other ''Hou je van dieren?'' 2 0 [] =
       ask_yesno_loop desktop_demo says_other ''Hou je van dieren?'' 2 1
         [Espeak ''Hou je van dieren?'' ''nl'', Intent_request 7 [(''answer_yesno'', 1)]]
   \<and> 2 \<le> recognitions (snd (ask_yesno_loop desktop_demo says_other ''Hou je van dieren?'' 2 0 []))"
proof -
  have a: "(0::int) < 2" and b: "(1::int) < 2" by simp_all
  have both: "intent (says_both (recognitions [])) = Some ''yesno_no_yesno_yes''"
    by (simp add: says_both_def)
  have no: "intent (says_no (recognitions [])) = Some ''yesno_no''"
    by (simp add: says_no_def)
  have dk: "intent (says_dontknow (recognitions [])) = Some ''answer_yesno_dontknow''"
    by (simp add: says_dontknow_def)
  have other: "intent (says_other (recognitions [])) = Some ''animals''"
    by (simp add: says_other_def)
  show ?thesis
    using ask_yesno_priority [where dialogflow = says_both and tr = "[]" and attempts = 0
            and max_attempts = 2 and self = desktop_demo and question = "''Hou je van dieren?''",
            OF a both]
          ask_yesno_priority [where dialogflow = says_no and tr = "[]" and attempts = 0
            and max_attempts = 2 and self = desktop_demo and question = "''Hou je van dieren?''",
            OF a no]
          ask_yesno_priority [where dialogflow = says_dontknow and tr = "[]" and attempts = 1
            and max_attempts = 2 and self = desktop_demo and question = "''Hou je van dieren?''",
            OF b dk]
          ask_yesno_priority [where dialogflow = says_other and tr = "[]" and attempts = 0
            and max_attempts = 2 and self = desktop_demo and question = "''Hou je van dieren?''",
            OF a other]
    by (auto simp add: attempt_def say_def desktop_demo_def recognitions_Nil)
qed

subsection \<open>play\_audio\<close>

text \<open>
  Claim C7. A clip whose sample width is not 2 bytes makes \<open>play_audio\<close> raise a
  \<open>ValueError\<close> whose message contains the sample width in decimal, and the trace of
  requests is unchanged: no speaker request is issued. A clip of sample width 2 passes the
  check and exactly one speaker request, with the frames read and the frame rate, is issued.
\<close>

theorem play_audio_sample_width:
  "(sampwidth clip \<noteq> 2 \<longrightarrow>
      play_audio self clip tr =
        (Inl (ValueError (''WAV file is not 16-bit audio. Sample width = ''
                            @ str_nat (sampwidth clip) @ '' bytes.'')), tr))
   \<and> (sampwidth clip = 2 \<longrightarrow>
      play_audio self clip tr =
        (Inr (), tr @ [Audio_request (readframes clip (nframes clip)) (framerate clip)]))"
  by (simp add: play_audio_def Let_def)

theorem play_audio_sample_width_witness:
  "play_audio desktop_demo clip8 [] =
     (Inl (ValueError ''WAV file is not 16-bit audio. Sample width = 1 bytes.''), [])
   \<and> play_audio desktop_demo clip16 [] = (Inr (), [Audio_request [1, 2] 16000])"
  using play_audio_sample_width [of clip8 desktop_demo "[]"]
        play_audio_sample_width [of clip16 desktop_demo "[]"]
  by (simp add: clip8_def clip16_def readframes_def str_nat_1 digit_char_def)

subsection \<open>log\_utterance before start\_logging\<close>

text \<open>
  Claim C9. Until \<open>start_logging\<close> is called the attribute \<open>log_queue\<close> is \<open>None\<close>,
  as \<open>__init__\<close> leaves it. In such a state \<open>log_utterance\<close> returns normally and the
  state after the call is the state before it, for every speaker and text: nothing is
  enqueued, no file is touched, the clock is not read, and whatever follows runs from the
  same state as if the call had not been made.
\<close>

theorem log_utterance_before_start:
  "log_queue s = None \<Longrightarrow> log_utterance clock speaker text s = s"
  by (simp add: log_utterance_def)

theorem log_utterance_before_start_witness:
  "log_queue (init 7 no_files) = None
   \<and> log_utterance noon ''Memo'' ''hallo'' (init 7 no_files) = init 7 no_files"
proof -
  have h: "log_queue (init 7 no_files) = None" by (simp add: init_def)
  show ?thesis using h log_utterance_before_start [OF h, of noon "''Memo''" "''hallo''"] by simp
qed

subsection \<open>run and the call of start\_logging\<close>

text \<open>
  Claim C6. \<open>run\<close> calls \<open>start_logging\<close> with no argument, and \<open>start_logging\<close>
  has the required parameter \<open>log_id\<close>. So every call of \<open>run\<close>, in every state and
  whatever the services would answer, raises a \<open>TypeError\<close> in the state in which it
  was called: no request to the language model, the recogniser or the speech output has been
  issued. The exception is not a \<open>KeyboardInterrupt\<close>, the \<open>except\<close> clause does not
  handle it, and it leaves \<open>run\<close>.
\<close>

theorem run_raises_type_error:
  "run w base_prompt speed s = Some (Raised (TypeError missing_log_id) s)
   \<and> TypeError missing_log_id \<noteq> KeyboardInterrupt"
  by (simp add: run_def call_start_logging_def missing_log_id_def)

theorem run_raises_type_error_witness:
  "run stop_world ''Je bent Memo.'' 75 (init 7 no_files)
     = Some (Raised (TypeError missing_log_id) (init 7 no_files))"
  using run_raises_type_error [of stop_world "''Je bent Memo.''" 75 "init 7 no_files"]
  by simp


subsection \<open>The log writer\<close>

text \<open>
  Facts about one step of either thread in the state \<open>logging\<close>: the state stays
  \<open>logging\<close>, the thread keeps its file, and what is in the file followed by what is
  outstanding grows only at the end, by the record just enqueued.
\<close>

declare thread_join.simps [simp del]

lemma to_lines_append: "to_lines (a @ b) = to_lines a @ to_lines b"
  by (simp add: to_lines_def)

lemma to_lines_Nil: "to_lines [] = []"
  by (simp add: to_lines_def)

lemma to_lines_Cons: "to_lines (x # xs) = x @ newline # to_lines xs"
  by (simp add: to_lines_def)

lemma queued_put:
  "queued (map_option (\<lambda>q. q @ [Some text]) (Some q)) = queued (Some q) @ [text]"
  by (simp add: List.map_filter_def)

lemma worker_stage:
  assumes "writer_path (log_thread s) = Some p"
  obtains "log_thread s = Some (Starting p)" | "log_thread s = Some (Waiting p)"
    | t where "log_thread s = Some (Holding p t)"
  using assms by (auto elim: writer_path.elims)

lemma log_writer_step_keeps:
  assumes "logging s" and "writer_path (log_thread s) = Some p"
  shows "logging (log_writer_step s)
    \<and> writer_path (log_thread (log_writer_step s)) = Some p
    \<and> content (log_writer_step s) p @ to_lines (outstanding (log_writer_step s))
        = content s p @ to_lines (outstanding s)
    \<and> (\<forall>p'. p' \<noteq> p \<longrightarrow> files (log_writer_step s) p' = files s p')
    \<and> clock_reads (log_writer_step s) = clock_reads s
    \<and> trace (log_writer_step s) = trace s"
proof -
  from assms(1) obtain q where q: "log_queue s = Some q" "None \<notin> set q"
    by (cases "log_queue s") (simp_all add: logging_def)
  from assms(2) show ?thesis
  proof (cases rule: worker_stage)
    case 1
    then show ?thesis
      using q by (simp add: logging_def log_writer_step_def outstanding_def content_def)
  next
    case 2
    show ?thesis
    proof (cases q)
      case Nil
      then show ?thesis
        using 2 q by (simp add: logging_def log_writer_step_def)
    next
      case (Cons item rest)
      with q obtain t where "item = Some t" by (cases item) simp_all
      then show ?thesis
        using 2 q Cons
        by (simp add: logging_def log_writer_step_def outstanding_def content_def
              to_lines_Cons)
    qed
  next
    case (3 t)
    then show ?thesis
      using q by (simp add: logging_def log_writer_step_def outstanding_def content_def
                    to_lines_Cons)
  qed
qed

lemma log_utterance_keeps:
  assumes "logging s" and "writer_path (log_thread s) = Some p"
  shows "logging (log_utterance clock speaker text s)
    \<and> writer_path (log_thread (log_utterance clock speaker text s)) = Some p
    \<and> content (log_utterance clock speaker text s) p
          @ to_lines (outstanding (log_utterance clock speaker text s))
        = content s p @ to_lines (outstanding s)
          @ to_lines [utterance (strftime (clock (clock_reads s))) speaker text]
    \<and> (\<forall>p'. p' \<noteq> p \<longrightarrow> files (log_utterance clock speaker text s) p' = files s p')
    \<and> clock_reads (log_utterance clock speaker text s) = Suc (clock_reads s)
    \<and> trace (log_utterance clock speaker text s) = trace s"
  using assms
  by (cases "log_queue s")
     (auto simp add: logging_def log_utterance_def queue_put_def outstanding_def content_def
        utterance_def to_lines_append List.map_filter_def Let_def)

lemma exec_keeps:
  assumes "logging s" and "writer_path (log_thread s) = Some p"
  shows "logging (exec clock schedule s)
    \<and> writer_path (log_thread (exec clock schedule s)) = Some p
    \<and> content (exec clock schedule s) p @ to_lines (outstanding (exec clock schedule s))
        = content s p @ to_lines (outstanding s)
          @ to_lines (utterances clock (clock_reads s) schedule)
    \<and> (\<forall>p'. p' \<noteq> p \<longrightarrow> files (exec clock schedule s) p' = files s p')
    \<and> trace (exec clock schedule s) = trace s"
  using assms
proof (induction schedule arbitrary: s)
  case Nil
  then show ?case by (simp add: exec_def to_lines_Nil)
next
  case (Cons a schedule)
  show ?case
  proof (cases a)
    case Worker
    note k = log_writer_step_keeps [OF Cons.prems]
    from k have l: "logging (log_writer_step s)"
      and w: "writer_path (log_thread (log_writer_step s)) = Some p" by simp_all
    have e: "exec clock (Worker # schedule) s = exec clock schedule (log_writer_step s)"
      by (simp add: exec_def)
    show ?thesis
      unfolding Worker e using Cons.IH [OF l w] k by simp
  next
    case (Log speaker t)
    note k = log_utterance_keeps [OF Cons.prems, of clock speaker t]
    from k have l: "logging (log_utterance clock speaker t s)"
      and w: "writer_path (log_thread (log_utterance clock speaker t s)) = Some p"
      by simp_all
    have e: "exec clock (Log speaker t # schedule) s
               = exec clock schedule (log_utterance clock speaker t s)"
      by (simp add: exec_def)
    show ?thesis
      unfolding Log e using Cons.IH [OF l w] k
      by (simp add: to_lines_append to_lines_Cons to_lines_Nil)
  qed
qed

lemma head_start_keeps:
  assumes "logging s" and "writer_path (log_thread s) = Some p"
  shows "logging ((log_writer_step ^^ w) s)
    \<and> writer_path (log_thread ((log_writer_step ^^ w) s)) = Some p
    \<and> content ((log_writer_step ^^ w) s) p @ to_lines (outstanding ((log_writer_step ^^ w) s))
        = content s p @ to_lines (outstanding s)
    \<and> (\<forall>p'. p' \<noteq> p \<longrightarrow> files ((log_writer_step ^^ w) s) p' = files s p')
    \<and> clock_reads ((log_writer_step ^^ w) s) = clock_reads s
    \<and> trace ((log_writer_step ^^ w) s) = trace s"
proof (induction w)
  case 0
  from assms show ?case by simp
next
  case (Suc w)
  then have l: "logging ((log_writer_step ^^ w) s)"
    and p: "writer_path (log_thread ((log_writer_step ^^ w) s)) = Some p" by simp_all
  from log_writer_step_keeps [OF l p] Suc show ?case by simp
qed

lemma start_logging_keeps:
  "logging (start_logging clock w log_id s0)
   \<and> writer_path (log_thread (start_logging clock w log_id s0)) = Some (log_file log_id)
   \<and> content (start_logging clock w log_id s0) (log_file log_id)
        @ to_lines (outstanding (start_logging clock w log_id s0))
      = content s0 (log_file log_id) @ to_lines [start_marker (strftime (clock (clock_reads s0)))]
   \<and> (\<forall>p'. p' \<noteq> log_file log_id \<longrightarrow> files (start_logging clock w log_id s0) p' = files s0 p')
   \<and> clock_reads (start_logging clock w log_id s0) = Suc (clock_reads s0)
   \<and> trace (start_logging clock w log_id s0) = trace s0"
proof -
  define s1 where "s1 = s0\<lparr>dirs := insert ''logs'' (dirs s0), log_queue := Some [],
                            log_thread := Some (Starting (log_file log_id))\<rparr>"
  define s2 where "s2 = (log_writer_step ^^ w) s1"
  have l1: "logging s1" and p1: "writer_path (log_thread s1) = Some (log_file log_id)"
    by (simp_all add: s1_def logging_def)
  have o1: "held (log_thread s1) = []" "queued (log_queue s1) = []" and c1: "content s1 (log_file log_id) = content s0 (log_file log_id)"
    and f1: "files s1 = files s0" and k1: "clock_reads s1 = clock_reads s0"
    and t1: "trace s1 = trace s0"
    by (simp_all add: s1_def outstanding_def content_def)
  note k = head_start_keeps [OF l1 p1, of w, folded s2_def]
  from k obtain q where q: "log_queue s2 = Some q" "None \<notin> set q"
    by (cases "log_queue s2") (simp_all add: logging_def)
  have r: "start_logging clock w log_id s0 =
             queue_put (Some (start_marker (strftime (clock (clock_reads s2)))))
               (s2\<lparr>clock_reads := Suc (clock_reads s2)\<rparr>)"
    by (simp add: start_logging_def Let_def s2_def s1_def log_file_def start_marker_def)
  show ?thesis
    using k q
    by (simp add: r queue_put_def logging_def outstanding_def content_def o1 c1 f1 k1 t1
          to_lines_append to_lines_Nil List.map_filter_def)
qed

lemma session_keeps:
  "logging (session clock w log_id s0 schedule)
   \<and> writer_path (log_thread (session clock w log_id s0 schedule)) = Some (log_file log_id)
   \<and> content (session clock w log_id s0 schedule) (log_file log_id)
        @ to_lines (outstanding (session clock w log_id s0 schedule))
      = content s0 (log_file log_id) @ to_lines (records clock (clock_reads s0) schedule)
   \<and> (\<forall>p'. p' \<noteq> log_file log_id \<longrightarrow> files (session clock w log_id s0 schedule) p' = files s0 p')
   \<and> trace (session clock w log_id s0 schedule) = trace s0"
proof -
  note a = start_logging_keeps [of clock w log_id s0]
  from a have l: "logging (start_logging clock w log_id s0)"
    and p: "writer_path (log_thread (start_logging clock w log_id s0)) = Some (log_file log_id)"
    by simp_all
  from exec_keeps [OF l p, of clock schedule] a show ?thesis
    by (simp add: session_def records_def to_lines_Cons to_lines_Nil)
qed

text \<open>\<open>join\<close> once the exit signal is the last item of the queue.\<close>

lemma thread_join_finished:
  "log_thread s = Some Finished \<Longrightarrow> thread_join s = Some s"
  by (simp add: thread_join.simps)

lemma thread_join_step:
  "log_thread s = Some (Starting p) \<or> log_thread s = Some (Holding p t)
     \<or> (log_thread s = Some (Waiting p) \<and> log_queue s = Some (item # rest)) \<Longrightarrow>
   thread_join s = thread_join (log_writer_step s)"
  by (subst thread_join.simps) (auto simp add: blocked_def)

lemma join_waiting:
  "log_thread s = Some (Waiting p) \<Longrightarrow> log_queue s = Some (map Some items @ [None]) \<Longrightarrow>
   \<exists>s'. thread_join s = Some s' \<and> log_thread s' = Some Finished \<and> log_queue s' = Some []
     \<and> content s' p = content s p @ to_lines items
     \<and> (\<forall>p'. p' \<noteq> p \<longrightarrow> files s' p' = files s p')
     \<and> trace s' = trace s"
proof (induction items arbitrary: s)
  case Nil
  define s1 where "s1 = s\<lparr>log_queue := Some [], log_thread := Some Finished\<rparr>"
  have "log_writer_step s = s1"
    using Nil by (simp add: log_writer_step_def s1_def)
  moreover have "thread_join s = thread_join (log_writer_step s)"
    using Nil by (intro thread_join_step [where p = p]) simp
  moreover have "thread_join s1 = Some s1"
    by (rule thread_join_finished) (simp add: s1_def)
  ultimately show ?case
    by (simp add: s1_def content_def to_lines_Nil)
next
  case (Cons x items)
  define s1 where "s1 = s\<lparr>log_queue := Some (map Some items @ [None]),
                            log_thread := Some (Holding p x)\<rparr>"
  define s2 where "s2 = s1\<lparr>files := (files s1)(p \<mapsto> content s1 p @ x @ [newline]),
                             log_thread := Some (Waiting p)\<rparr>"
  have a: "log_writer_step s = s1"
    using Cons.prems by (simp add: log_writer_step_def s1_def)
  have b: "log_writer_step s1 = s2"
    by (simp add: log_writer_step_def s1_def s2_def)
  have "thread_join s = thread_join (log_writer_step s)"
    using Cons.prems by (intro thread_join_step [where p = p]) simp
  also have "\<dots> = thread_join (log_writer_step s1)"
    unfolding a by (intro thread_join_step [where p = p and t = x]) (simp add: s1_def)
  finally have j: "thread_join s = thread_join s2" by (simp add: b)
  have w: "log_thread s2 = Some (Waiting p)" and q: "log_queue s2 = Some (map Some items @ [None])"
    by (simp_all add: s2_def s1_def)
  from Cons.IH [OF w q] obtain s' where s':
    "thread_join s2 = Some s'" "log_thread s' = Some Finished" "log_queue s' = Some []"
    "content s' p = content s2 p @ to_lines items"
    "\<forall>p'. p' \<noteq> p \<longrightarrow> files s' p' = files s2 p'" "trace s' = trace s2"
    by blast
  have c: "content s2 p = content s p @ x @ [newline]"
    and f: "\<forall>p'. p' \<noteq> p \<longrightarrow> files s2 p' = files s p'" and t: "trace s2 = trace s"
    by (simp_all add: s2_def s1_def content_def)
  show ?case
    using s' c f t by (simp add: j to_lines_Cons)
qed

lemma join_any:
  assumes "writer_path (log_thread s) = Some p"
    and "log_queue s = Some (map Some items @ [None])"
  shows "\<exists>s'. thread_join s = Some s' \<and> log_thread s' = Some Finished \<and> log_queue s' = Some []
     \<and> content s' p = content s p @ to_lines (held (log_thread s) @ items)
     \<and> (\<forall>p'. p' \<noteq> p \<longrightarrow> files s' p' = files s p')
     \<and> trace s' = trace s"
  using assms(1)
proof (cases rule: worker_stage)
  case 1
  define s1 where "s1 = s\<lparr>files := (files s)(p \<mapsto> content s p),
                            log_thread := Some (Waiting p)\<rparr>"
  have a: "log_writer_step s = s1"
    using 1 by (simp add: log_writer_step_def s1_def)
  have j: "thread_join s = thread_join s1"
    using 1 a thread_join_step [of s p] by simp
  have w: "log_thread s1 = Some (Waiting p)" and q: "log_queue s1 = Some (map Some items @ [None])"
    using assms(2) by (simp_all add: s1_def)
  have c: "content s1 p = content s p"
    and f: "\<forall>p'. p' \<noteq> p \<longrightarrow> files s1 p' = files s p'" and t: "trace s1 = trace s"
    by (simp_all add: s1_def content_def)
  from join_waiting [OF w q] show ?thesis
    using 1 by (simp add: j c f t)
next
  case 2
  from join_waiting [OF 2 assms(2)] show ?thesis
    using 2 by simp
next
  case (3 t)
  define s1 where "s1 = s\<lparr>files := (files s)(p \<mapsto> content s p @ t @ [newline]),
                            log_thread := Some (Waiting p)\<rparr>"
  have a: "log_writer_step s = s1"
    using 3 by (simp add: log_writer_step_def s1_def)
  have j: "thread_join s = thread_join s1"
    using 3 a thread_join_step [of s p t] by simp
  have w: "log_thread s1 = Some (Waiting p)" and q: "log_queue s1 = Some (map Some items @ [None])"
    using assms(2) by (simp_all add: s1_def)
  have c: "content s1 p = content s p @ t @ [newline]"
    and f: "\<forall>p'. p' \<noteq> p \<longrightarrow> files s1 p' = files s p'" and tr: "trace s1 = trace s"
    by (simp_all add: s1_def content_def)
  from join_waiting [OF w q] show ?thesis
    using 3 by (simp add: j c f tr to_lines_Cons)
qed

lemma queue_of_strings:
  "None \<notin> set q \<Longrightarrow> map Some (List.map_filter (\<lambda>item. item) q) = q"
proof (induction q)
  case Nil
  show ?case by (simp add: List.map_filter_def)
next
  case (Cons item q)
  then show ?case by (cases item) (simp_all add: List.map_filter_def)
qed

lemma stop_logging_joins:
  assumes "logging s" and "writer_path (log_thread s) = Some p"
  shows "\<exists>s'. stop_logging s = Some s' \<and> log_thread s' = Some Finished \<and> log_queue s' = Some []
     \<and> content s' p = content s p @ to_lines (outstanding s)
     \<and> (\<forall>p'. p' \<noteq> p \<longrightarrow> files s' p' = files s p')
     \<and> trace s' = trace s"
proof -
  from assms(1) obtain q where q: "log_queue s = Some q" "None \<notin> set q"
    by (cases "log_queue s") (simp_all add: logging_def)
  define s1 where "s1 = queue_put None s"
  have st: "stop_logging s = thread_join s1"
    using q assms(2) by (auto simp add: stop_logging_def s1_def queue_put_def Let_def)
  have w: "writer_path (log_thread s1) = Some p"
    using assms(2) by (simp add: s1_def queue_put_def)
  have qq: "log_queue s1 = Some (map Some (queued (log_queue s)) @ [None])"
    using q by (simp add: s1_def queue_put_def queue_of_strings)
  have c: "content s1 p = content s p" and f: "files s1 = files s" and t: "trace s1 = trace s"
    and h: "log_thread s1 = log_thread s"
    by (simp_all add: s1_def queue_put_def content_def)
  from join_any [OF w qq] show ?thesis
    by (simp add: st c f t h outstanding_def)
qed

lemma lines_from_record:
  "newline \<notin> set r \<Longrightarrow> lines_from cur (r @ newline # rest) = (cur @ r) # lines_from [] rest"
  by (induction r arbitrary: cur) auto

lemma text_lines_to_lines:
  "\<forall>r\<in>set rs. newline \<notin> set r \<Longrightarrow> text_lines (to_lines rs) = rs"
proof (induction rs)
  case Nil
  show ?case by (simp add: text_lines_def to_lines_Nil)
next
  case (Cons r rs)
  then have "newline \<notin> set r" and "text_lines (to_lines rs) = rs" by simp_all
  then show ?case
    using lines_from_record [of r "[]" "to_lines rs"]
    by (simp add: text_lines_def to_lines_Cons)
qed

lemma starts_with_append: "starts_with needle (needle @ rest)"
  by (induction needle) simp_all

lemma str_in_here: "str_in needle (needle @ rest)"
proof (cases "needle @ rest")
  case Nil
  then show ?thesis by simp
next
  case (Cons c cs)
  with starts_with_append [of needle rest] have "starts_with needle (c # cs)" by simp
  with Cons show ?thesis by simp
qed

lemma str_in_append: "str_in needle (front @ needle @ rest)"
proof (induction front)
  case Nil
  show ?case by (simp add: str_in_here)
next
  case (Cons c front)
  then show ?case by simp
qed

lemma record_shaped_utterance: "record_shaped (utterance timestamp speaker t)"
proof -
  have a: "str_in ''] '' (utterance timestamp speaker t)"
    using str_in_append [of "''] ''" "''['' @ timestamp" "speaker @ '': '' @ t"]
    by (simp add: utterance_def)
  have b: "str_in '': '' (utterance timestamp speaker t)"
    using str_in_append [of "'': ''" "''['' @ timestamp @ ''] '' @ speaker" t]
    by (simp add: utterance_def)
  show ?thesis
    using a b by (simp add: record_shaped_def) (simp add: utterance_def)
qed


lemma stop_session:
  "\<exists>s'. stop_logging (session clock w log_id s0 schedule) = Some s'
     \<and> log_thread s' = Some Finished \<and> log_queue s' = Some []
     \<and> content s' (log_file log_id)
         = content s0 (log_file log_id) @ to_lines (records clock (clock_reads s0) schedule)
     \<and> (\<forall>p'. p' \<noteq> log_file log_id \<longrightarrow> files s' p' = files s0 p')
     \<and> trace s' = trace s0"
proof -
  note k = session_keeps [of clock w log_id s0 schedule]
  from k have l: "logging (session clock w log_id s0 schedule)"
    and p: "writer_path (log_thread (session clock w log_id s0 schedule)) = Some (log_file log_id)"
    by simp_all
  from stop_logging_joins [OF l p] k show ?thesis by auto
qed

lemma init_idle: "idle (init rid fs)"
  by (simp add: idle_def init_def)

lemma init_fields: "clock_reads (init rid fs) = 0" "content (init rid fs) path = (case fs path of None \<Rightarrow> [] | Some t \<Rightarrow> t)"
  "files (init rid fs) = fs" "trace (init rid fs) = []"
  by (simp_all add: init_def content_def)

lemma noon_values:
  "strftime (noon 0) = ''2025-01-01 12:00:00''"
  "strftime (noon (Suc 0)) = ''2025-01-01 12:00:01''"
  "strftime (noon (Suc (Suc 0))) = ''2025-01-01 12:00:02''"
  by (simp_all add: noon_def strftime_def Abs_local_time_inverse valid_time_def two_digits_def
        str_nat_1 str_nat_2 str_nat_4 digit_char_def)

lemma logging_path: "logging s \<Longrightarrow> \<exists>p. writer_path (log_thread s) = Some p"
  by (simp add: logging_def)

text \<open>
  Claim C2. In a session, that is \<open>start_logging\<close> in an idle state followed by any
  schedule of \<open>log_utterance\<close> calls and steps of the logging thread, \<open>stop_logging\<close>
  returns (the \<open>join\<close> does not block for ever), and in the state in which it returns the
  logging thread has terminated and has left the \<open>with\<close> block, so the file is closed; the
  queue is empty, the exit signal included; nothing is outstanding; and the file holds, after
  what it held before the session, every record enqueued before the signal, each written and
  flushed.
\<close>

theorem stop_logging_terminates_writer:
  "idle origin \<Longrightarrow>
   \<exists>s'. stop_logging (session clock w log_id origin schedule) = Some s'
     \<and> log_thread s' = Some Finished \<and> log_queue s' = Some [] \<and> outstanding s' = []
     \<and> idle s' \<and> \<not> logging s'
     \<and> content s' (log_file log_id)
         = content origin (log_file log_id) @ to_lines (records clock (clock_reads origin) schedule)"
proof -
  from stop_session [of clock w log_id origin schedule] obtain s' where
    "stop_logging (session clock w log_id origin schedule) = Some s'"
    "log_thread s' = Some Finished" "log_queue s' = Some []"
    "content s' (log_file log_id)
       = content origin (log_file log_id) @ to_lines (records clock (clock_reads origin) schedule)"
    by blast
  then show ?thesis
    by (simp add: outstanding_def idle_def logging_def)
qed

theorem stop_logging_terminates_writer_witness:
  "idle (init 7 no_files)
   \<and> stop_logging (session noon 1 ''p1'' (init 7 no_files) [Log ''Memo'' ''hallo'', Worker, Log ''Persoon'' ''dag''])
       \<noteq> None
   \<and> logged (stop_logging (session noon 1 ''p1'' (init 7 no_files)
                [Log ''Memo'' ''hallo'', Worker, Log ''Persoon'' ''dag''])) ''logs/p1.log''
       = ''[2025-01-01 12:00:00] ### START NEW LOG ###'' @ [newline]
         @ ''[2025-01-01 12:00:01] Memo: hallo'' @ [newline]
         @ ''[2025-01-01 12:00:02] Persoon: dag'' @ [newline]"
  using stop_logging_terminates_writer [where origin = "init 7 no_files" and clock = noon and w = 1
          and log_id = "''p1''" and schedule = "[Log ''Memo'' ''hallo'', Worker, Log ''Persoon'' ''dag'']"]
  by (auto simp add: init_idle init_fields no_files_def log_file_def records_def to_lines_def
        start_marker_def utterance_def noon_values)

text \<open>
  Claim C1, amended. For every session and every interleaving of the driver's
  \<open>log_utterance\<close> calls with the steps of the logging thread (every schedule, and every
  head start of the thread), the file content followed by the outstanding records is at every
  moment the content before the session followed by the records submitted so far, in the order
  of submission, each record followed by one newline; \<open>stop_logging\<close> returns, and then
  all of them are in the file in that order. The records do not depend on where the steps of
  the logging thread fall. Each record is one line of the file when no record contains a
  newline character: then the lines appended are exactly the records.
\<close>

theorem records_logged_in_order:
  "idle origin \<Longrightarrow>
   content (session clock w log_id origin schedule) (log_file log_id)
       @ to_lines (outstanding (session clock w log_id origin schedule))
     = content origin (log_file log_id) @ to_lines (records clock (clock_reads origin) schedule)
   \<and> stop_logging (session clock w log_id origin schedule) \<noteq> None
   \<and> logged (stop_logging (session clock w log_id origin schedule)) (log_file log_id)
     = content origin (log_file log_id) @ to_lines (records clock (clock_reads origin) schedule)
   \<and> ((\<forall>r\<in>set (records clock (clock_reads origin) schedule). newline \<notin> set r) \<longrightarrow>
        text_lines (to_lines (records clock (clock_reads origin) schedule))
          = records clock (clock_reads origin) schedule)"
  using session_keeps [of clock w log_id origin schedule]
        stop_session [of clock w log_id origin schedule]
        text_lines_to_lines [of "records clock (clock_reads origin) schedule"]
  by auto

theorem records_logged_in_order_witness:
  "logged (stop_logging (session noon 0 ''p1'' (init 7 no_files)
             [Log ''Memo'' ''hallo'', Worker, Worker, Log ''Persoon'' ''dag''])) ''logs/p1.log''
     = ''[2025-01-01 12:00:00] ### START NEW LOG ###'' @ [newline]
       @ ''[2025-01-01 12:00:01] Memo: hallo'' @ [newline]
       @ ''[2025-01-01 12:00:02] Persoon: dag'' @ [newline]
   \<and> text_lines (''[2025-01-01 12:00:00] ### START NEW LOG ###'' @ [newline]
       @ ''[2025-01-01 12:00:01] Memo: hallo'' @ [newline]
       @ ''[2025-01-01 12:00:02] Persoon: dag'' @ [newline])
     = [''[2025-01-01 12:00:00] ### START NEW LOG ###'', ''[2025-01-01 12:00:01] Memo: hallo'',
        ''[2025-01-01 12:00:02] Persoon: dag'']"
  using records_logged_in_order [where origin = "init 7 no_files" and clock = noon and w = 0
          and log_id = "''p1''"
          and schedule = "[Log ''Memo'' ''hallo'', Worker, Worker, Log ''Persoon'' ''dag'']"]
  by (simp add: init_idle init_fields no_files_def log_file_def records_def to_lines_def
        start_marker_def utterance_def noon_values newline_def)

text \<open>
  The claim as stated, each record as one line, fails for a record whose text contains a
  newline, as a poem of the language model does: two records are enqueued and three lines
  are written.
\<close>

theorem record_with_newline_spans_lines:
  "records noon 0 [Log ''Memo'' poem]
     = [''[2025-01-01 12:00:00] ### START NEW LOG ###'',
        ''[2025-01-01 12:00:01] Memo: roos'' @ [newline] @ ''doos'']
   \<and> text_lines (logged (stop_logging (session noon 0 ''p1'' (init 7 no_files) [Log ''Memo'' poem]))
                   ''logs/p1.log'')
     = [''[2025-01-01 12:00:00] ### START NEW LOG ###'', ''[2025-01-01 12:00:01] Memo: roos'',
        ''doos'']"
  using stop_session [of noon 0 "''p1''" "init 7 no_files" "[Log ''Memo'' poem]"]
  by (auto simp add: init_fields no_files_def log_file_def records_def to_lines_def
        start_marker_def utterance_def noon_values poem_def text_lines_def newline_def)




subsection \<open>The loop of run\<close>

text \<open>
  Claim C5. Take the loop of \<open>run\<close> at the start of any iteration, in a state in which
  logging has been started (which \<open>run\<close> itself, as written, never reaches: see C6). When
  the response of the language model in this iteration equals \<open>stop\<close> after lowering its
  case, as \<open>Stop\<close> does, the loop ends with the state right after the request to the
  language model; then the closing utterance is spoken and \<open>stop_logging\<close> returns with
  the logging thread terminated. From the start of the iteration on, the requests issued are
  the one to the language model and the closing utterance: no recognition request.
\<close>

theorem stop_word_ends_loop:
  assumes "lower llm_response \<noteq> ''stop''"
    and "lower (complete w (length (filter is_gpt_request (trace s)))) = ''stop''"
    and "logging s"
  shows "run_loop w base_prompt speed dialog_history llm_response s
           = Some (snd (llm_action w base_prompt dialog_history s))
     \<and> (\<exists>s'. run_from_loop w base_prompt speed dialog_history llm_response s = Some s'
          \<and> trace s' = trace s @
               [Gpt_request (if dialog_history \<noteq> []
                             then base_prompt @ ''Dit is het gesprek tot nu toe: '' @ dialog_history
                             else base_prompt),
                Tts_request ('' '' @ [CHR 0x5C] @ ''rspd='' @ str_int speed @ [CHR 0x5C] @ '' ''
                               @ closing) (Some ''Dutch'') True]
          \<and> recognitions (trace s') = recognitions (trace s)
          \<and> log_thread s' = Some Finished \<and> log_queue s' = Some [] \<and> \<not> logging s')"
proof -
  define r where "r = complete w (length (filter is_gpt_request (trace s)))"
  define s1 where "s1 = snd (llm_action w base_prompt dialog_history s)"
  have act: "llm_action w base_prompt dialog_history s = (r, s1)"
    by (simp add: llm_action_def Let_def r_def s1_def)
  have s1: "s1 = s\<lparr>trace := trace s @
               [Gpt_request (if dialog_history \<noteq> []
                             then base_prompt @ ''Dit is het gesprek tot nu toe: '' @ dialog_history
                             else base_prompt)]\<rparr>"
    by (simp add: llm_action_def Let_def s1_def)
  have stop: "lower r = ''stop''"
    using assms(2) by (simp add: r_def)
  have inner: "run_loop w base_prompt speed dialog_history r s1 = Some s1"
    by (subst run_loop.simps) (simp add: stop)
  have loop: "run_loop w base_prompt speed dialog_history llm_response s = Some s1"
    by (subst run_loop.simps) (simp add: assms(1) act stop inner)
  define s2 where "s2 = memo_say closing speed s1"
  have l2: "logging s2"
    using assms(3) by (simp add: s2_def memo_say_def s1 logging_def)
  from logging_path [OF l2] obtain p where p: "writer_path (log_thread s2) = Some p" by blast
  from stop_logging_joins [OF l2 p] obtain s' where s':
    "stop_logging s2 = Some s'" "log_thread s' = Some Finished" "log_queue s' = Some []"
    "trace s' = trace s2"
    by blast
  have t2: "trace s2 = trace s @
               [Gpt_request (if dialog_history \<noteq> []
                             then base_prompt @ ''Dit is het gesprek tot nu toe: '' @ dialog_history
                             else base_prompt),
                Tts_request ('' '' @ [CHR 0x5C] @ ''rspd='' @ str_int speed @ [CHR 0x5C] @ '' ''
                               @ closing) (Some ''Dutch'') True]"
    by (simp add: s2_def memo_say_def s1)
  have "run_from_loop w base_prompt speed dialog_history llm_response s = Some s'"
    by (simp add: run_from_loop_def loop s'(1) [unfolded s2_def])
  moreover have "recognitions (trace s') = recognitions (trace s)"
    by (simp add: s'(4) t2 recognitions_def)
  moreover have "\<not> logging s'"
    by (simp add: logging_def s'(2))
  ultimately show ?thesis
    using loop s' t2 by (simp add: s1_def)
qed

theorem stop_word_ends_loop_witness:
  "lower [] \<noteq> ''stop''
   \<and> lower (complete stop_world 0) = ''stop''
   \<and> complete stop_world 0 = ''Stop''
   \<and> logging (start_logging noon 0 ''p1'' (init 7 no_files))
   \<and> (\<exists>s'. run_from_loop stop_world ''Je bent Memo.'' 75 [] []
              (start_logging noon 0 ''p1'' (init 7 no_files)) = Some s'
         \<and> trace s' = [Gpt_request ''Je bent Memo.'',
               Tts_request ('' '' @ [CHR 0x5C] @ ''rspd=75'' @ [CHR 0x5C] @ '' '' @ closing)
                 (Some ''Dutch'') True]
         \<and> recognitions (trace s') = 0
         \<and> log_thread s' = Some Finished)"
proof -
  have a: "lower [] \<noteq> ''stop''"
    by (simp add: lower_def)
  have t: "trace (start_logging noon 0 ''p1'' (init 7 no_files)) = []"
    using start_logging_keeps [of noon 0 "''p1''" "init 7 no_files"] by (simp add: init_fields)
  have b: "lower (complete stop_world (length (filter is_gpt_request
             (trace (start_logging noon 0 ''p1'' (init 7 no_files)))))) = ''stop''"
    by (simp add: t stop_world_def answers_stop_def lower_def lower_char_def)
  have c: "logging (start_logging noon 0 ''p1'' (init 7 no_files))"
    using start_logging_keeps [of noon 0 "''p1''" "init 7 no_files"] by simp
  have d: "str_int 75 = ''75''"
    by (simp add: str_int_def str_nat_2 digit_char_def)
  show ?thesis
    using stop_word_ends_loop [OF a b c, of "''Je bent Memo.''" 75 "[]"] a b c
    by (auto simp add: t d recognitions_Nil stop_world_def answers_stop_def)
qed

end
